theory Spec2Isabelle
  imports Complex_Main "HOL-Library.Multiset"
begin

section \<open>Python values\<close>

text \<open>
  The pipeline moves untyped pandas cells around. A cell is \<open>None\<close>, an integer, a float,
  a string or a timestamp. A finite float is idealised as the rational it denotes (no
  rounding, no overflow to infinity); the three special floats are kept apart, because
  \<open>float('inf')\<close> and \<open>float('nan')\<close> are accepted by Python and behave differently from
  numbers in \<open>int(...)\<close>, in \<open>==\<close> and in \<open>pd.isna\<close>.
\<close>

datatype pyfloat = Fin rat | PosInf | NegInf | NaN

datatype pyval = PNone | PInt int | PFloat pyfloat | PStr string | PTime int

datatype error = ValueError | OverflowError | IndexError | KeyError string

text \<open>
  What the program takes from the Python runtime and from pandas without defining it: the
  \<open>repr\<close> of a finite float and of a timestamp (used by \<open>str(...)\<close>), the date parser
  \<open>pd.to_datetime\<close> (\<open>None\<close> when it raises or yields \<open>NaT\<close>) and the built-in
  \<open>hash\<close> of a string, which CPython salts per process. They are parameters of the model.
\<close>

record pylib =
  float_repr :: "rat \<Rightarrow> string"
  time_repr :: "int \<Rightarrow> string"
  to_datetime :: "pyval \<Rightarrow> int option"
  str_hash :: "string \<Rightarrow> int"

subsection \<open>Characters and strings\<close>

text \<open>
  A string is the list of its characters, taken to be ASCII: the digits and the white
  space that Python recognises beyond ASCII are outside the model.
\<close>

definition is_digit :: "char \<Rightarrow> bool" where
  "is_digit c = (48 \<le> (of_char c :: nat) \<and> (of_char c :: nat) \<le> 57)"

definition digit_val :: "char \<Rightarrow> nat" where
  "digit_val c = (of_char c :: nat) - 48"

definition digit_char :: "nat \<Rightarrow> char" where
  "digit_char d = char_of (48 + d)"

text \<open>\<open>str.strip()\<close> removes the characters of \<open>str.isspace\<close>: in ASCII, 9 to 13 and 28 to 32.\<close>

definition is_space :: "char \<Rightarrow> bool" where
  "is_space c = ((9 \<le> (of_char c :: nat) \<and> (of_char c :: nat) \<le> 13)
     \<or> (28 \<le> (of_char c :: nat) \<and> (of_char c :: nat) \<le> 32))"

text \<open>\<open>float(...)\<close> and \<open>int(...)\<close> skip the C whitespace only: 9 to 13 and 32.\<close>

definition is_cspace :: "char \<Rightarrow> bool" where
  "is_cspace c = ((9 \<le> (of_char c :: nat) \<and> (of_char c :: nat) \<le> 13) \<or> (of_char c :: nat) = 32)"

definition strip_by :: "(char \<Rightarrow> bool) \<Rightarrow> string \<Rightarrow> string" where
  "strip_by p s = rev (dropWhile p (rev (dropWhile p s)))"

definition strip :: "string \<Rightarrow> string" where
  "strip s = strip_by is_space s"

text \<open>\<open>s.replace(c, '')\<close> for a one-character \<open>c\<close>.\<close>

definition remove_char :: "char \<Rightarrow> string \<Rightarrow> string" where
  "remove_char c s = filter (\<lambda>x. x \<noteq> c) s"

definition lower_char :: "char \<Rightarrow> char" where
  "lower_char c = (if 65 \<le> (of_char c :: nat) \<and> (of_char c :: nat) \<le> 90
     then char_of ((of_char c :: nat) + 32) else c)"

definition lower :: "string \<Rightarrow> string" where
  "lower s = map lower_char s"

subsection \<open>\<open>str(int)\<close>\<close>

fun digits_of_nat :: "nat \<Rightarrow> string" where
  "digits_of_nat n =
     (if n < 10 then [digit_char n] else digits_of_nat (n div 10) @ [digit_char (n mod 10)])"

declare digits_of_nat.simps [simp del]

definition str_of_int :: "int \<Rightarrow> string" where
  "str_of_int i = (if i < 0 then CHR ''-'' # digits_of_nat (nat (- i)) else digits_of_nat (nat i))"

text \<open>
  \<open>str(x)\<close>. The special floats print as \<open>nan\<close>, \<open>inf\<close> and \<open>-inf\<close>; a finite float and a
  timestamp print as the runtime's \<open>repr\<close>.
\<close>

fun py_str :: "pylib \<Rightarrow> pyval \<Rightarrow> string" where
  "py_str L PNone = ''None''"
| "py_str L (PInt i) = str_of_int i"
| "py_str L (PFloat (Fin q)) = float_repr L q"
| "py_str L (PFloat PosInf) = ''inf''"
| "py_str L (PFloat NegInf) = ''-inf''"
| "py_str L (PFloat NaN) = ''nan''"
| "py_str L (PStr s) = s"
| "py_str L (PTime t) = time_repr L t"

text \<open>\<open>pd.isna(x)\<close> on a scalar: \<open>None\<close> and the float \<open>nan\<close>.\<close>

fun isna :: "pyval \<Rightarrow> bool" where
  "isna PNone = True"
| "isna (PFloat NaN) = True"
| "isna _ = False"

subsection \<open>\<open>float(str)\<close> and \<open>int(str)\<close>\<close>

text \<open>
  CPython first checks the underscores of the literal (each one stands between two digits)
  and deletes them, then reads an optional sign followed by \<open>inf\<close>, \<open>infinity\<close> or \<open>nan\<close> in
  any case, or by a decimal number with an optional exponent. Anything left over is a
  \<open>ValueError\<close>.
\<close>

fun underscores_ok :: "char \<Rightarrow> string \<Rightarrow> bool" where
  "underscores_ok prev [] = (prev \<noteq> CHR ''_'')"
| "underscores_ok prev (c # cs) =
     (if c = CHR ''_'' then is_digit prev \<and> underscores_ok c cs
      else (if prev = CHR ''_'' then is_digit c else True) \<and> underscores_ok c cs)"

definition nat_of_digits :: "string \<Rightarrow> nat" where
  "nat_of_digits s = foldl (\<lambda>a c. 10 * a + digit_val c) 0 s"

definition all_digits :: "string \<Rightarrow> bool" where
  "all_digits s = list_all is_digit s"

text \<open>The text before the first character satisfying \<open>p\<close>, and the text after it if there is one.\<close>

definition split_first :: "(char \<Rightarrow> bool) \<Rightarrow> string \<Rightarrow> string \<times> string option" where
  "split_first p s =
     (takeWhile (\<lambda>c. \<not> p c) s,
      case dropWhile (\<lambda>c. \<not> p c) s of [] \<Rightarrow> None | _ # r \<Rightarrow> Some r)"

definition split_sign :: "string \<Rightarrow> bool \<times> string" where
  "split_sign s =
     (case s of
        [] \<Rightarrow> (False, [])
      | c # r \<Rightarrow> if c = CHR ''-'' then (True, r) else if c = CHR ''+'' then (False, r) else (False, s))"

text \<open>The exponent after \<open>e\<close>: an optional sign and at least one digit.\<close>

definition parse_exponent :: "string \<Rightarrow> int option" where
  "parse_exponent s =
     (case split_sign s of (neg, ds) \<Rightarrow>
        if ds \<noteq> [] \<and> all_digits ds
        then Some (if neg then - int (nat_of_digits ds) else int (nat_of_digits ds))
        else None)"

text \<open>The mantissa: digits, optionally a point and more digits, at least one digit in all.\<close>

definition parse_mantissa :: "string \<Rightarrow> rat option" where
  "parse_mantissa s =
     (case split_first (\<lambda>c. c = CHR ''.'') s of (ip, fo) \<Rightarrow>
        (let fp = (case fo of None \<Rightarrow> [] | Some f \<Rightarrow> f) in
         if all_digits ip \<and> all_digits fp \<and> ip @ fp \<noteq> []
         then Some (of_nat (nat_of_digits (ip @ fp)) / 10 ^ length fp)
         else None))"

definition scale10 :: "rat \<Rightarrow> int \<Rightarrow> rat" where
  "scale10 q e = (if 0 \<le> e then q * 10 ^ nat e else q / 10 ^ nat (- e))"

definition parse_decimal :: "string \<Rightarrow> rat option" where
  "parse_decimal s =
     (case split_first (\<lambda>c. c = CHR ''e'' \<or> c = CHR ''E'') s of (m, eo) \<Rightarrow>
        (case parse_mantissa m of
           None \<Rightarrow> None
         | Some q \<Rightarrow>
             (case eo of
                None \<Rightarrow> Some q
              | Some es \<Rightarrow>
                  (case parse_exponent es of None \<Rightarrow> None | Some e \<Rightarrow> Some (scale10 q e)))))"

definition py_float :: "string \<Rightarrow> error + pyfloat" where
  "py_float s0 =
     (let s = strip_by is_cspace s0 in
      if \<not> underscores_ok (CHR 0x00) s then Inl ValueError
      else
        (case split_sign (remove_char (CHR ''_'') s) of (neg, body) \<Rightarrow>
           if lower body = ''inf'' \<or> lower body = ''infinity''
           then Inr (if neg then NegInf else PosInf)
           else if lower body = ''nan'' then Inr NaN
           else
             (case parse_decimal body of
                None \<Rightarrow> Inl ValueError
              | Some q \<Rightarrow> Inr (Fin (if neg then - q else q)))))"

text \<open>\<open>int(str)\<close> in base 10: whitespace stripped, an optional sign, digits with underscores.\<close>

definition py_int :: "string \<Rightarrow> error + int" where
  "py_int s0 =
     (let s = strip_by is_cspace s0 in
      case split_sign s of (neg, body) \<Rightarrow>
        if body \<noteq> [] \<and> is_digit (hd body) \<and> underscores_ok (CHR 0x00) body
           \<and> all_digits (remove_char (CHR ''_'') body)
        then Inr (if neg then - int (nat_of_digits (remove_char (CHR ''_'') body))
                  else int (nat_of_digits (remove_char (CHR ''_'') body)))
        else Inl ValueError)"

text \<open>Multiplying and dividing a float by a positive finite constant.\<close>

fun fmul :: "pyfloat \<Rightarrow> rat \<Rightarrow> pyfloat" where
  "fmul (Fin q) c = Fin (q * c)"
| "fmul f c = f"

fun fdiv :: "pyfloat \<Rightarrow> rat \<Rightarrow> pyfloat" where
  "fdiv (Fin q) c = Fin (q / c)"
| "fdiv f c = f"

section \<open>Phase 1: the column normalizers of \<open>DataIngestionPipeline\<close>\<close>

text \<open>
  Each normalizer is the local function that \<open>df[col].apply\<close> runs on every cell. An
  exception that leaves the function is \<open>Inl\<close>; a bare \<open>except:\<close> turns any failure of the
  guarded conversion into the fallback.
\<close>

definition convert_reviews :: "pylib \<Rightarrow> pyval \<Rightarrow> error + pyval" where
  "convert_reviews L review_str =
     (if isna review_str \<or> review_str = PStr ''NaN'' then Inr (PInt 0)
      else
        (let s = strip (py_str L review_str) in
         if s = ''0'' \<or> s = [] then Inr (PInt 0)
         else if CHR ''M'' \<in> set s then
           (case py_float (remove_char (CHR '','') (remove_char (CHR ''M'') s)) of
              Inl e \<Rightarrow> Inl e
            | Inr f \<Rightarrow> Inr (PFloat (fmul f 1000000)))
         else if CHR ''k'' \<in> set s then
           (case py_float (remove_char (CHR '','') (remove_char (CHR ''k'') s)) of
              Inl e \<Rightarrow> Inl e
            | Inr f \<Rightarrow> Inr (PFloat (fmul f 1000)))
         else
           (case py_float (remove_char (CHR '','') s) of
              Inl e \<Rightarrow> Inr (PInt 0)
            | Inr f \<Rightarrow> Inr (PFloat f))))"

definition convert_size :: "pylib \<Rightarrow> pyval \<Rightarrow> error + pyval" where
  "convert_size L size_str =
     (if isna size_str \<or> size_str = PStr ''Varies with device'' then Inr (PFloat NaN)
      else
        (let s = strip (py_str L size_str) in
         if CHR ''M'' \<in> set s then
           (case py_float (remove_char (CHR '','') (remove_char (CHR ''M'') s)) of
              Inl e \<Rightarrow> Inl e
            | Inr f \<Rightarrow> Inr (PFloat f))
         else if CHR ''k'' \<in> set s then
           (case py_float (remove_char (CHR '','') (remove_char (CHR ''k'') s)) of
              Inl e \<Rightarrow> Inl e
            | Inr f \<Rightarrow> Inr (PFloat (fdiv f 1024)))
         else
           (case py_float s of
              Inl e \<Rightarrow> Inr (PFloat NaN)
            | Inr f \<Rightarrow> Inr (PFloat f))))"

definition convert_installs :: "pylib \<Rightarrow> pyval \<Rightarrow> error + pyval" where
  "convert_installs L install_str =
     (if isna install_str then Inr (PInt 0)
      else
        (let s = remove_char (CHR '','') (remove_char (CHR ''+'') (strip (py_str L install_str))) in
         case py_int s of
           Inl e \<Rightarrow> Inr (PInt 0)
         | Inr i \<Rightarrow> Inr (PInt i)))"

definition convert_price :: "pylib \<Rightarrow> pyval \<Rightarrow> error + pyval" where
  "convert_price L price_str =
     (if isna price_str then Inr (PFloat (Fin 0))
      else
        (let s = strip (py_str L price_str) in
         if s = ''0'' \<or> s = ''Free'' then Inr (PFloat (Fin 0))
         else
           (case py_float (remove_char (CHR ''$'') s) of
              Inl e \<Rightarrow> Inr (PFloat (Fin 0))
            | Inr f \<Rightarrow> Inr (PFloat f))))"

definition convert_date :: "pylib \<Rightarrow> pyval \<Rightarrow> error + pyval" where
  "convert_date L date_str =
     (if isna date_str then Inr PNone
      else
        (case to_datetime L date_str of
           None \<Rightarrow> Inr PNone
         | Some t \<Rightarrow> Inr (PTime t)))"

subsection \<open>The cleaning steps on a table\<close>

text \<open>
  A table is the list of its rows in arrival order; a row maps column names to cells.
  \<open>row[k]\<close> and \<open>df[k]\<close> raise \<open>KeyError\<close> for an absent column, \<open>row.get(k, d)\<close> yields \<open>d\<close>.
\<close>

type_synonym row = "string \<rightharpoonup> pyval"

definition getitem :: "row \<Rightarrow> string \<Rightarrow> error + pyval" where
  "getitem r k = (case r k of None \<Rightarrow> Inl (KeyError k) | Some v \<Rightarrow> Inr v)"

definition get_default :: "row \<Rightarrow> string \<Rightarrow> pyval \<Rightarrow> pyval" where
  "get_default r k d = (case r k of None \<Rightarrow> d | Some v \<Rightarrow> v)"

text \<open>Sequencing: the first exception ends the computation.\<close>

definition ebind :: "error + 'a \<Rightarrow> ('a \<Rightarrow> error + 'b) \<Rightarrow> error + 'b" where
  "ebind m f = (case m of Inl e \<Rightarrow> Inl e | Inr x \<Rightarrow> f x)"

fun emap :: "('a \<Rightarrow> error + 'b) \<Rightarrow> 'a list \<Rightarrow> error + 'b list" where
  "emap f [] = Inr []"
| "emap f (x # xs) = ebind (f x) (\<lambda>y. ebind (emap f xs) (\<lambda>ys. Inr (y # ys)))"

text \<open>\<open>df[dst] = df[src].apply(f)\<close>\<close>

definition apply_column :: "string \<Rightarrow> string \<Rightarrow> (pyval \<Rightarrow> error + pyval) \<Rightarrow> row list \<Rightarrow> error + row list" where
  "apply_column src dst f df =
     emap (\<lambda>r. ebind (getitem r src) (\<lambda>v. ebind (f v) (\<lambda>w. Inr (r(dst \<mapsto> w))))) df"

definition clean_reviews_column :: "pylib \<Rightarrow> row list \<Rightarrow> error + row list" where
  "clean_reviews_column L df = apply_column ''Reviews'' ''Reviews_Numeric'' (convert_reviews L) df"

definition clean_size_column :: "pylib \<Rightarrow> row list \<Rightarrow> error + row list" where
  "clean_size_column L df = apply_column ''Size'' ''Size_MB'' (convert_size L) df"

definition clean_installs_column :: "pylib \<Rightarrow> row list \<Rightarrow> error + row list" where
  "clean_installs_column L df = apply_column ''Installs'' ''Installs_Numeric'' (convert_installs L) df"

definition clean_price_column :: "pylib \<Rightarrow> row list \<Rightarrow> error + row list" where
  "clean_price_column L df = apply_column ''Price'' ''Price_USD'' (convert_price L) df"

definition clean_date_column :: "pylib \<Rightarrow> row list \<Rightarrow> error + row list" where
  "clean_date_column L df = apply_column ''Last Updated'' ''Last_Updated_Date'' (convert_date L) df"

subsection \<open>The deduplicator\<close>

text \<open>The timestamp of a row; \<open>None\<close> for a missing one (\<open>NaT\<close>).\<close>

definition Last_Updated_Date :: "row \<Rightarrow> int option" where
  "Last_Updated_Date r = (case r ''Last_Updated_Date'' of Some (PTime t) \<Rightarrow> Some t | _ \<Rightarrow> None)"

definition dated :: "row \<Rightarrow> bool" where
  "dated r = (Last_Updated_Date r \<noteq> None)"

definition stamp :: "row \<Rightarrow> int" where
  "stamp r = (case Last_Updated_Date r of Some t \<Rightarrow> t | None \<Rightarrow> 0)"

subsection \<open>The index sort of numpy\<close>

text \<open>
  \<open>sort_values\<close> runs with pandas' default \<open>kind='quicksort'\<close>, which hands the timestamps
  to numpy's \<open>argsort\<close>. That routine sorts an array \<open>t\<close> of positions of the keys \<open>v\<close>:
  a segment of more than 16 positions is partitioned around the median of its first,
  middle and last key, a shorter one is sorted by insertion, and a segment taken from
  the stack when the depth budget is used up is heap-sorted.
\<close>

definition swap_entries :: "nat list \<Rightarrow> nat \<Rightarrow> nat \<Rightarrow> nat list" where
  "swap_entries t i j = t[i := t ! j, j := t ! i]"

text \<open>
  The two scans of the partition. In the source they stop at the sentinels the median of
  three leaves at both ends; the bounds \<open>hi\<close> and \<open>lo\<close> say so.
\<close>

function scan_up :: "int list \<Rightarrow> nat list \<Rightarrow> int \<Rightarrow> nat \<Rightarrow> nat \<Rightarrow> nat" where
  "scan_up v t vp hi i =
     (if i < hi \<and> v ! (t ! i) < vp then scan_up v t vp hi (Suc i) else i)"
  by pat_completeness auto
termination
  by (relation "measure (\<lambda>(v, t, vp, hi, i). hi - i)") auto

function scan_down :: "int list \<Rightarrow> nat list \<Rightarrow> int \<Rightarrow> nat \<Rightarrow> nat \<Rightarrow> nat" where
  "scan_down v t vp lo j =
     (if lo < j \<and> vp < v ! (t ! j) then scan_down v t vp lo (j - 1) else j)"
  by pat_completeness auto
termination
  by (relation "measure (\<lambda>(v, t, vp, lo, j). j)") auto

declare scan_up.simps [simp del] scan_down.simps [simp del]

lemma scan_up_ge: "i \<le> scan_up v t vp hi i"
  by (induction v t vp hi i rule: scan_up.induct) (subst scan_up.simps, auto)

lemma scan_down_le: "scan_down v t vp lo j \<le> j"
  by (induction v t vp lo j rule: scan_down.induct) (subst scan_down.simps, auto)

function partition_loop :: "int list \<Rightarrow> int \<Rightarrow> nat \<Rightarrow> nat \<Rightarrow> nat list \<Rightarrow> nat \<Rightarrow> nat \<Rightarrow> nat list \<times> nat" where
  "partition_loop v vp pl pr t i j =
     (let i' = scan_up v t vp pr (Suc i); j' = scan_down v t vp pl (j - 1) in
      if j' \<le> i' then (t, i') else partition_loop v vp pl pr (swap_entries t i' j') i' j')"
  by pat_completeness auto
termination
proof (relation "measure (\<lambda>(v, vp, pl, pr, t, i, j). j - i)", goal_cases)
  case 1
  then show ?case by simp
next
  case (2 v vp pl pr t i j x xa)
  have "Suc i \<le> x" using 2(1) scan_up_ge by simp
  moreover have "xa \<le> j - 1" using 2(2) scan_down_le by simp
  ultimately show ?case using 2(3) by simp
qed

declare partition_loop.simps [simp del]

lemma scan_up_le: "i \<le> hi \<Longrightarrow> scan_up v t vp hi i \<le> hi"
  by (induction v t vp hi i rule: scan_up.induct) (subst scan_up.simps, auto)

lemma partition_loop_bounds:
  "partition_loop v vp pl pr t i j = (t', k) \<Longrightarrow> i < pr \<Longrightarrow> j \<le> pr \<Longrightarrow> i < k \<and> k \<le> pr"
proof (induction v vp pl pr t i j rule: partition_loop.induct)
  case (1 v vp pl pr t i j)
  let ?i = "scan_up v t vp pr (Suc i)" and ?j = "scan_down v t vp pl (j - 1)"
  have up: "?i \<le> pr" "Suc i \<le> ?i"
    using "1.prems"(2) scan_up_ge [of "Suc i" v t vp pr] by (simp_all add: scan_up_le)
  have down: "?j \<le> j - 1" by (rule scan_down_le)
  show ?case
  proof (cases "?j \<le> ?i")
    case True
    with "1.prems"(1) have "k = ?i"
      by (subst (asm) partition_loop.simps) (auto simp: Let_def)
    then show ?thesis using up by simp
  next
    case False
    with "1.prems"(1) have rec: "partition_loop v vp pl pr (swap_entries t ?i ?j) ?i ?j = (t', k)"
      by (subst (asm) partition_loop.simps) (auto simp: Let_def)
    from False down "1.prems"(3) have "?i < pr" "?j \<le> pr" by simp_all
    with "1.IH" [OF refl refl False rec] have "?i < k \<and> k \<le> pr" by simp
    then show ?thesis using up by simp
  qed
qed

text \<open>Insertion sort of the positions \<open>pl..pr\<close>.\<close>

function insert_back :: "int list \<Rightarrow> nat \<Rightarrow> nat \<Rightarrow> int \<Rightarrow> nat list \<Rightarrow> nat \<Rightarrow> nat list" where
  "insert_back v pl vi vp t j =
     (if pl < j \<and> vp < v ! (t ! (j - 1)) then insert_back v pl vi vp (t[j := t ! (j - 1)]) (j - 1)
      else t[j := vi])"
  by pat_completeness auto
termination
  by (relation "measure (\<lambda>(v, pl, vi, vp, t, j). j)") auto

declare insert_back.simps [simp del]

definition insertion_sort :: "int list \<Rightarrow> nat list \<Rightarrow> nat \<Rightarrow> nat \<Rightarrow> nat list" where
  "insertion_sort v t pl pr =
     foldl (\<lambda>t i. insert_back v pl (t ! i) (v ! (t ! i)) t i) t [Suc pl..<Suc pr]"

text \<open>Heap sort of the first \<open>n\<close> entries of \<open>a\<close>, with the one-based positions of the source.\<close>

function sift :: "int list \<Rightarrow> nat \<Rightarrow> nat \<Rightarrow> nat list \<Rightarrow> nat \<Rightarrow> nat \<Rightarrow> nat list" where
  "sift v n tmp a i j =
     (if 0 < j \<and> j \<le> n then
        (let j' = (if j < n \<and> v ! (a ! (j - 1)) < v ! (a ! j) then j + 1 else j) in
         if v ! tmp < v ! (a ! (j' - 1)) then sift v n tmp (a[i - 1 := a ! (j' - 1)]) j' (j' + j')
         else a[i - 1 := tmp])
      else a[i - 1 := tmp])"
  by pat_completeness auto
termination
  by (relation "measure (\<lambda>(v, n, tmp, a, i, j). Suc n - j)") (auto simp: Let_def)

declare sift.simps [simp del]

function heap_extract :: "int list \<Rightarrow> nat list \<Rightarrow> nat \<Rightarrow> nat list" where
  "heap_extract v a n =
     (if 1 < n then heap_extract v (sift v (n - 1) (a ! (n - 1)) (a[n - 1 := a ! 0]) 1 2) (n - 1)
      else a)"
  by pat_completeness auto
termination
  by (relation "measure (\<lambda>(v, a, n). n)") auto

declare heap_extract.simps [simp del]

definition aheapsort :: "int list \<Rightarrow> nat list \<Rightarrow> nat list" where
  "aheapsort v a =
     heap_extract v
       (foldl (\<lambda>a l. sift v (length a) (a ! (l - 1)) a l (2 * l)) a (rev [1..<Suc (length a div 2)]))
       (length a)"

definition heap_sort_segment :: "int list \<Rightarrow> nat list \<Rightarrow> nat \<Rightarrow> nat \<Rightarrow> nat list" where
  "heap_sort_segment v t pl pr =
     take pl t @ aheapsort v (take (Suc pr - pl) (drop pl t)) @ drop (Suc pr) t"

text \<open>Median of three, then the partition around the pivot parked at \<open>pr - 1\<close>.\<close>

definition partition_segment :: "int list \<Rightarrow> nat list \<Rightarrow> nat \<Rightarrow> nat \<Rightarrow> nat list \<times> nat" where
  "partition_segment v t pl pr =
     (let pm = pl + (pr - pl) div 2;
          t1 = (if v ! (t ! pm) < v ! (t ! pl) then swap_entries t pm pl else t);
          t2 = (if v ! (t1 ! pr) < v ! (t1 ! pm) then swap_entries t1 pr pm else t1);
          t3 = (if v ! (t2 ! pm) < v ! (t2 ! pl) then swap_entries t2 pm pl else t2);
          vp = v ! (t3 ! pm);
          t4 = swap_entries t3 pm (pr - 1);
          (t5, k) = partition_loop v vp pl pr t4 pl (pr - 1)
      in (swap_entries t5 k (pr - 1), k))"

lemma partition_bounds: "partition_segment v t pl pr = (t', k) \<Longrightarrow> pl < pr \<Longrightarrow> pl < k \<and> k \<le> pr"
  by (auto simp: partition_segment_def Let_def split: prod.splits dest!: partition_loop_bounds)

text \<open>
  One segment. After a partition the source goes on with the smaller part and stacks the
  larger one; only a stacked part is tested against the depth budget when it is taken up
  again (\<open>popped\<close>). The two parts do not overlap, so the order in which they are sorted
  does not matter.
\<close>

function aquicksort_segment :: "bool \<Rightarrow> int \<Rightarrow> int list \<Rightarrow> nat list \<Rightarrow> nat \<Rightarrow> nat \<Rightarrow> nat list" where
  "aquicksort_segment popped cdepth v t pl pr =
     (if popped \<and> cdepth < 0 then heap_sort_segment v t pl pr
      else if 16 \<le> pr - pl then
        (case partition_segment v t pl pr of (t', k) \<Rightarrow>
           if k - pl < pr - k
           then aquicksort_segment True (cdepth - 1) v
                  (aquicksort_segment False (cdepth - 1) v t' pl (k - 1)) (Suc k) pr
           else aquicksort_segment True (cdepth - 1) v
                  (aquicksort_segment False (cdepth - 1) v t' (Suc k) pr) pl (k - 1))
      else insertion_sort v t pl pr)"
  by pat_completeness auto
termination
  apply (relation "measure (\<lambda>(popped, cdepth, v, t, pl, pr). pr - pl)")
      apply simp
     apply (auto dest!: partition_bounds [OF sym])
  done

declare aquicksort_segment.simps [simp del]

fun npy_get_msb :: "nat \<Rightarrow> nat" where
  "npy_get_msb n = (if n < 2 then 0 else Suc (npy_get_msb (n div 2)))"

declare npy_get_msb.simps [simp del]

definition npy_aquicksort :: "int list \<Rightarrow> nat list" where
  "npy_aquicksort v =
     aquicksort_segment True (2 * int (npy_get_msb (length v))) v [0..<length v] 0 (length v - 1)"

text \<open>What numpy promises of \<open>argsort\<close>: the positions of \<open>v\<close>, in an order that sorts it.\<close>

definition argsort_result :: "int list \<Rightarrow> nat list \<Rightarrow> bool" where
  "argsort_result v p = (mset p = mset [0..<length v] \<and> sorted (map (\<lambda>k. v ! k) p))"

subsection \<open>The sort of pandas\<close>

text \<open>
  \<open>nargsort(items, kind='quicksort', ascending=False, na_position='last')\<close>: the missing
  entries are masked out, the others are reversed, sorted by numpy and reversed again,
  and the positions of the missing ones are appended in their original order. numpy's
  \<open>argsort\<close> is the parameter; an index it returns out of range is an \<open>IndexError\<close>.
\<close>

definition nargsort :: "(int list \<Rightarrow> nat list) \<Rightarrow> int option list \<Rightarrow> error + nat list" where
  "nargsort argsort items =
     (let idx = [0..<length items];
          non_nans = List.map_filter (\<lambda>x. x) items;
          non_nan_idx = filter (\<lambda>i. items ! i \<noteq> None) idx;
          nan_idx = filter (\<lambda>i. items ! i = None) idx;
          non_nans_reversed = rev non_nans;
          non_nan_idx_reversed = rev non_nan_idx;
          order = argsort non_nans_reversed
      in if list_all (\<lambda>k. k < length non_nan_idx_reversed) order
         then Inr (rev (map (\<lambda>k. non_nan_idx_reversed ! k) order) @ nan_idx)
         else Inl IndexError)"

text \<open>\<open>df.sort_values('Last_Updated_Date', ascending=False, na_position='last')\<close>\<close>

definition sort_values :: "(int list \<Rightarrow> nat list) \<Rightarrow> row list \<Rightarrow> error + row list" where
  "sort_values argsort df =
     ebind (nargsort argsort (map Last_Updated_Date df)) (\<lambda>indexer.
       Inr (map (\<lambda>i. df ! i) indexer))"

text \<open>The array that \<open>sort_values\<close> hands to numpy: the timestamps present, reversed.\<close>

definition sort_keys :: "row list \<Rightarrow> int list" where
  "sort_keys df = rev (List.map_filter (\<lambda>x. x) (map Last_Updated_Date df))"

text \<open>
  A table \<open>s\<close> holds the rows of \<open>df\<close> latest first, the rows without a timestamp last in
  their original order.
\<close>

definition latest_first :: "row list \<Rightarrow> row list \<Rightarrow> bool" where
  "latest_first df s =
     (mset s = mset df
      \<and> s = filter dated s @ filter (\<lambda>r. \<not> dated r) df
      \<and> sorted_wrt (\<lambda>a b. stamp b \<le> stamp a) (filter dated s))"

subsection \<open>Dropping the duplicates\<close>

text \<open>\<open>drop_duplicates(keep='first')\<close> by a key, the keys seen so far in \<open>seen\<close>.\<close>

fun keep_first :: "('a \<Rightarrow> 'k) \<Rightarrow> 'k list \<Rightarrow> 'a list \<Rightarrow> 'a list" where
  "keep_first key seen [] = []"
| "keep_first key seen (x # xs) =
     (if key x \<in> set seen then keep_first key seen xs
      else x # keep_first key (key x # seen) xs)"

definition drop_duplicates :: "string \<Rightarrow> row list \<Rightarrow> error + row list" where
  "drop_duplicates col df =
     ebind (emap (\<lambda>r. getitem r col) df) (\<lambda>keys. Inr (keep_first (\<lambda>r. r col) [] df))"

text \<open>\<open>remove_duplicates\<close>: the table it returns and the statistic \<open>duplicates_removed\<close>.\<close>

definition remove_duplicates :: "(int list \<Rightarrow> nat list) \<Rightarrow> row list \<Rightarrow> error + (row list \<times> int)" where
  "remove_duplicates argsort df =
     ebind (emap (\<lambda>r. getitem r ''Last_Updated_Date'') df) (\<lambda>stamps.
     ebind (sort_values argsort df) (\<lambda>df_sorted.
     ebind (drop_duplicates ''App'' df_sorted) (\<lambda>df_deduplicated.
       Inr (df_deduplicated, int (length df) - int (length df_deduplicated)))))"

subsection \<open>The Phase 1 schema and pipeline\<close>

text \<open>
  \<open>validate_data_quality\<close> only computes statistics; of it the model keeps the column
  look-ups, which raise when a column is absent. Its arithmetic is left out: the
  \<open>Rating\<close> column is numeric, as \<open>read_csv\<close> leaves it.
\<close>

definition validate_data_quality :: "row list \<Rightarrow> error + unit" where
  "validate_data_quality df =
     ebind (emap (\<lambda>r. getitem r ''Rating'') df) (\<lambda>c1.
     ebind (emap (\<lambda>r. getitem r ''Type'') df) (\<lambda>c2.
     ebind (emap (\<lambda>r. getitem r ''Category'') df) (\<lambda>c3.
     ebind (emap (\<lambda>r. getitem r ''Reviews_Numeric'') df) (\<lambda>c4.
     ebind (emap (\<lambda>r. getitem r ''Size_MB'') df) (\<lambda>c5. Inr ())))))"

text \<open>One row of the Phase 1 \<open>create_unified_schema\<close>: the renamed columns.\<close>

definition ingestion_unified_row :: "row \<Rightarrow> error + row" where
  "ingestion_unified_row r =
     ebind (getitem r ''App'') (\<lambda>app.
     ebind (getitem r ''Category'') (\<lambda>cat.
     ebind (getitem r ''Rating'') (\<lambda>rat.
     ebind (getitem r ''Reviews_Numeric'') (\<lambda>rev.
     ebind (getitem r ''Size_MB'') (\<lambda>sz.
     ebind (getitem r ''Installs_Numeric'') (\<lambda>inst.
     ebind (getitem r ''Type'') (\<lambda>ty.
     ebind (getitem r ''Price_USD'') (\<lambda>price.
     ebind (getitem r ''Content Rating'') (\<lambda>cr.
     ebind (getitem r ''Genres'') (\<lambda>gen.
     ebind (getitem r ''Last_Updated_Date'') (\<lambda>lu.
     ebind (getitem r ''Current Ver'') (\<lambda>cv.
     ebind (getitem r ''Android Ver'') (\<lambda>av.
       Inr (map_of
         [(''app_name'', app),
          (''category'', cat),
          (''rating'', rat),
          (''review_count'', rev),
          (''size_mb'', sz),
          (''installs'', inst),
          (''app_type'', ty),
          (''price_usd'', price),
          (''content_rating'', cr),
          (''genres'', gen),
          (''last_updated'', lu),
          (''current_version'', cv),
          (''android_version'', av)]))))))))))))))"

definition ingestion_create_unified_schema :: "row list \<Rightarrow> error + row list" where
  "ingestion_create_unified_schema df = emap ingestion_unified_row df"

text \<open>
  \<open>DataIngestionPipeline.execute_pipeline\<close>, with numpy's \<open>argsort\<close> as in
  \<open>remove_duplicates\<close>. Its result is what Phase 2 loads; the file in between is taken to
  hand every cell over unchanged.
\<close>

definition ingestion_execute_pipeline :: "pylib \<Rightarrow> (int list \<Rightarrow> nat list) \<Rightarrow> row list \<Rightarrow> error + row list" where
  "ingestion_execute_pipeline L argsort raw_data =
     ebind (clean_reviews_column L raw_data) (\<lambda>df1.
     ebind (clean_size_column L df1) (\<lambda>df2.
     ebind (clean_installs_column L df2) (\<lambda>df3.
     ebind (clean_price_column L df3) (\<lambda>df4.
     ebind (clean_date_column L df4) (\<lambda>df5.
     ebind (remove_duplicates argsort df5) (\<lambda>dd.
     ebind (validate_data_quality (fst dd)) (\<lambda>quality_metrics.
       ingestion_create_unified_schema (fst dd))))))))"

section \<open>Phase 2: the schema unifier of \<open>FreeAPIIntegrationPipeline\<close>\<close>

definition category_mapping :: "(string \<times> string) list" where
  "category_mapping =
     [(''ART_AND_DESIGN'', ''Creative''),
      (''AUTO_AND_VEHICLES'', ''Lifestyle''),
      (''BEAUTY'', ''Lifestyle''),
      (''BOOKS_AND_REFERENCE'', ''Education''),
      (''BUSINESS'', ''Business''),
      (''COMICS'', ''Entertainment''),
      (''COMMUNICATION'', ''Social''),
      (''DATING'', ''Social''),
      (''EDUCATION'', ''Education''),
      (''ENTERTAINMENT'', ''Entertainment''),
      (''EVENTS'', ''Lifestyle''),
      (''FAMILY'', ''Family''),
      (''FINANCE'', ''Finance''),
      (''FOOD_AND_DRINK'', ''Food & Drink''),
      (''GAME'', ''Games''),
      (''HEALTH_AND_FITNESS'', ''Health & Fitness''),
      (''HOUSE_AND_HOME'', ''Lifestyle''),
      (''LIBRARIES_AND_DEMO'', ''Developer Tools''),
      (''LIFESTYLE'', ''Lifestyle''),
      (''MAPS_AND_NAVIGATION'', ''Navigation''),
      (''MEDICAL'', ''Medical''),
      (''MUSIC_AND_AUDIO'', ''Music''),
      (''NEWS_AND_MAGAZINES'', ''News''),
      (''PARENTING'', ''Family''),
      (''PERSONALIZATION'', ''Utilities''),
      (''PHOTOGRAPHY'', ''Photo & Video''),
      (''PRODUCTIVITY'', ''Productivity''),
      (''SHOPPING'', ''Shopping''),
      (''SOCIAL'', ''Social''),
      (''SPORTS'', ''Sports''),
      (''TOOLS'', ''Utilities''),
      (''TRAVEL_AND_LOCAL'', ''Travel''),
      (''VIDEO_PLAYERS'', ''Photo & Video''),
      (''WEATHER'', ''Weather''),
      (''Games'', ''Games''),
      (''Business'', ''Business''),
      (''Education'', ''Education''),
      (''Entertainment'', ''Entertainment''),
      (''Finance'', ''Finance''),
      (''Health & Fitness'', ''Health & Fitness''),
      (''Lifestyle'', ''Lifestyle''),
      (''Music'', ''Music''),
      (''News'', ''News''),
      (''Photo & Video'', ''Photo & Video''),
      (''Productivity'', ''Productivity''),
      (''Social Networking'', ''Social''),
      (''Sports'', ''Sports''),
      (''Travel'', ''Travel''),
      (''Utilities'', ''Utilities''),
      (''Shopping'', ''Shopping''),
      (''Food & Drink'', ''Food & Drink''),
      (''Medical'', ''Medical''),
      (''Navigation'', ''Navigation''),
      (''Reference'', ''Education''),
      (''Weather'', ''Weather'')]"

text \<open>
  \<open>category_mapping.get(c, c)\<close>. Every key of the dictionary is a string, so a cell that
  is not a string is never found and comes back as it is.
\<close>

definition map_category :: "pyval \<Rightarrow> pyval" where
  "map_category c =
     (case c of
        PStr s \<Rightarrow> (case map_of category_mapping s of None \<Rightarrow> c | Some v \<Rightarrow> PStr v)
      | _ \<Rightarrow> c)"

text \<open>
  \<open>safe_convert_to_float\<close>. \<open>float(...)\<close> of a timestamp is a \<open>TypeError\<close>, which the
  function catches. (\<open>float(...)\<close> of an integer beyond the range of a double would raise
  \<open>OverflowError\<close>; finite floats are unbounded here.)
\<close>

definition safe_convert_to_float :: "pyval \<Rightarrow> pyfloat" where
  "safe_convert_to_float v =
     (if isna v \<or> v = PStr [] then Fin 0
      else
        (case v of
           PInt i \<Rightarrow> Fin (of_int i)
         | PFloat f \<Rightarrow> f
         | PStr s \<Rightarrow>
             (let s' = strip s in
              if s' = [] \<or> lower s' \<in> set [''nan'', ''null'', ''none''] then Fin 0
              else (case py_float s' of Inl e \<Rightarrow> Fin 0 | Inr f \<Rightarrow> f))
         | PTime t \<Rightarrow> Fin 0
         | PNone \<Rightarrow> Fin 0))"

text \<open>\<open>int(x)\<close> of a float truncates towards zero and raises on \<open>inf\<close> and \<open>nan\<close>.\<close>

fun int_of_float :: "pyfloat \<Rightarrow> error + int" where
  "int_of_float (Fin q) = Inr (if 0 \<le> q then \<lfloor>q\<rfloor> else \<lceil>q\<rceil>)"
| "int_of_float PosInf = Inl OverflowError"
| "int_of_float NegInf = Inl OverflowError"
| "int_of_float NaN = Inl ValueError"

definition safe_convert_to_int :: "pyval \<Rightarrow> error + int" where
  "safe_convert_to_int v = int_of_float (safe_convert_to_float v)"

record unified_app =
  app_id :: string
  app_name :: string
  platform :: string
  unified_category :: pyval
  original_category :: pyval
  rating :: pyfloat
  review_count :: pyval
  installs :: int
  size_mb :: pyval
  app_type :: string
  price_usd :: pyfloat
  content_rating :: string
  last_updated :: pyval
  genres :: string
  data_source :: string
  developer :: string
  version :: string
  min_os_version :: string

text \<open>\<open>f'gp_{hash(str(name)) % 1000000}'\<close>; Python's \<open>%\<close> with a positive modulus is \<open>mod\<close>.\<close>

definition gp_app_id :: "pylib \<Rightarrow> pyval \<Rightarrow> string" where
  "gp_app_id L name = ''gp_'' @ str_of_int (str_hash L (py_str L name) mod 1000000)"

definition ios_app_id :: "int \<Rightarrow> string" where
  "ios_app_id track = ''ios_'' @ str_of_int track"

text \<open>The body of the first loop: one Google Play row. The columns are read in the order
  of the dictionary display.\<close>

definition unify_gp :: "pylib \<Rightarrow> row \<Rightarrow> error + unified_app" where
  "unify_gp L r =
     ebind (getitem r ''app_name'') (\<lambda>name.
     ebind (getitem r ''category'') (\<lambda>cat.
     ebind (getitem r ''rating'') (\<lambda>rat.
     ebind (getitem r ''review_count'') (\<lambda>rev.
     ebind (getitem r ''installs'') (\<lambda>inst.
     ebind (safe_convert_to_int inst) (\<lambda>inst_i.
     ebind (getitem r ''size_mb'') (\<lambda>sz.
     ebind (getitem r ''app_type'') (\<lambda>ty.
     ebind (getitem r ''price_usd'') (\<lambda>price.
     ebind (getitem r ''content_rating'') (\<lambda>cr.
     ebind (getitem r ''last_updated'') (\<lambda>lu.
       Inr \<lparr>app_id = gp_app_id L name,
            app_name = py_str L name,
            platform = ''Android'',
            unified_category = map_category cat,
            original_category = cat,
            rating = safe_convert_to_float rat,
            review_count = PFloat (safe_convert_to_float rev),
            installs = inst_i,
            size_mb = PFloat (safe_convert_to_float sz),
            app_type = py_str L ty,
            price_usd = safe_convert_to_float price,
            content_rating = py_str L cr,
            last_updated = lu,
            genres = py_str L (get_default r ''genres'' (PStr [])),
            data_source = ''Google Play Store'',
            developer = [],
            version = py_str L (get_default r ''current_version'' (PStr [])),
            min_os_version = py_str L (get_default r ''android_version'' (PStr []))\<rparr>)))))))))))"

text \<open>\<open>file_size_bytes / (1024 * 1024) if file_size_bytes > 0 else 0\<close>\<close>

fun ios_size_mb :: "pyfloat \<Rightarrow> pyval" where
  "ios_size_mb (Fin q) = (if 0 < q then PFloat (Fin (q / (1024 * 1024))) else PInt 0)"
| "ios_size_mb PosInf = PFloat PosInf"
| "ios_size_mb NegInf = PInt 0"
| "ios_size_mb NaN = PInt 0"

text \<open>The body of the second loop: one iTunes row.\<close>

definition unify_ios :: "pylib \<Rightarrow> row \<Rightarrow> error + unified_app" where
  "unify_ios L r =
     ebind (getitem r ''fileSizeBytes'') (\<lambda>fsb.
     ebind (getitem r ''trackId'') (\<lambda>tid.
     ebind (safe_convert_to_int tid) (\<lambda>tid_i.
     ebind (getitem r ''trackName'') (\<lambda>name.
     ebind (getitem r ''primaryGenreName'') (\<lambda>genre.
     ebind (getitem r ''averageUserRating'') (\<lambda>rat.
     ebind (getitem r ''userRatingCount'') (\<lambda>cnt.
     ebind (safe_convert_to_int cnt) (\<lambda>cnt_i.
     ebind (getitem r ''price'') (\<lambda>price.
     ebind (getitem r ''contentAdvisoryRating'') (\<lambda>car.
     ebind (getitem r ''currentVersionReleaseDate'') (\<lambda>cvd.
     ebind (getitem r ''artistName'') (\<lambda>artist.
     ebind (getitem r ''version'') (\<lambda>ver.
     ebind (getitem r ''minimumOsVersion'') (\<lambda>minos.
       Inr \<lparr>app_id = ios_app_id tid_i,
            app_name = py_str L name,
            platform = ''iOS'',
            unified_category = map_category (PStr (py_str L genre)),
            original_category = PStr (py_str L genre),
            rating = safe_convert_to_float rat,
            review_count = PInt cnt_i,
            installs = 0,
            size_mb = ios_size_mb (safe_convert_to_float fsb),
            app_type = (if safe_convert_to_float price = Fin 0 then ''Free'' else ''Paid''),
            price_usd = safe_convert_to_float price,
            content_rating = py_str L car,
            last_updated = PStr (py_str L cvd),
            genres = py_str L genre,
            data_source = ''iTunes App Store'',
            developer = py_str L artist,
            version = py_str L ver,
            min_os_version = py_str L minos\<rparr>))))))))))))))"

text \<open>\<open>create_unified_schema\<close>: both loops, then \<open>gp_unified + ios_unified\<close>.\<close>

definition create_unified_schema :: "pylib \<Rightarrow> row list \<Rightarrow> row list \<Rightarrow> error + unified_app list" where
  "create_unified_schema L google_play_data itunes_data =
     ebind (emap (unify_gp L) google_play_data) (\<lambda>gp_unified.
     ebind (emap (unify_ios L) itunes_data) (\<lambda>ios_unified.
       Inr (gp_unified @ ios_unified)))"

text \<open>A row of \<open>pd.DataFrame(all_unified)\<close>: the dictionary the loops built.\<close>

definition unified_row :: "unified_app \<Rightarrow> row" where
  "unified_row u = map_of
     [(''app_id'', PStr (app_id u)),
      (''app_name'', PStr (app_name u)),
      (''platform'', PStr (platform u)),
      (''unified_category'', unified_category u),
      (''original_category'', original_category u),
      (''rating'', PFloat (rating u)),
      (''review_count'', review_count u),
      (''installs'', PInt (installs u)),
      (''size_mb'', size_mb u),
      (''app_type'', PStr (app_type u)),
      (''price_usd'', PFloat (price_usd u)),
      (''content_rating'', PStr (content_rating u)),
      (''last_updated'', last_updated u),
      (''genres'', PStr (genres u)),
      (''data_source'', PStr (data_source u)),
      (''developer'', PStr (developer u)),
      (''version'', PStr (version u)),
      (''min_os_version'', PStr (min_os_version u))]"

text \<open>
  What decides an \<open>app_id\<close>: for a Google Play row the residue of the hash of the name,
  for an iTunes row the converted \<open>trackId\<close> (\<open>None\<close> when the column is absent).
\<close>

definition gp_slot :: "pylib \<Rightarrow> row \<Rightarrow> int option" where
  "gp_slot L r = map_option (\<lambda>n. str_hash L (py_str L n) mod 1000000) (r ''app_name'')"

definition ios_track :: "row \<Rightarrow> (error + int) option" where
  "ios_track r = map_option safe_convert_to_int (r ''trackId'')"

section \<open>Sample data\<close>

text \<open>
  A runtime for the examples: its date parser reads no date, so every parsed date is
  missing. None of the examples prints a finite float or a timestamp, and none depends on
  the value of a hash.
\<close>

definition sample_lib :: pylib where
  "sample_lib =
     \<lparr>float_repr = (\<lambda>q. []), time_repr = (\<lambda>t. []), to_datetime = (\<lambda>v. None),
      str_hash = (\<lambda>s. int (length s))\<rparr>"

text \<open>One iTunes record as the fetch loop stores it, and one cleaned Google Play row.\<close>

definition ios_row :: row where
  "ios_row = map_of
     [(''trackId'', PInt 389801252),
      (''trackName'', PStr ''Chess''),
      (''artistName'', PStr ''Chess Inc.''),
      (''primaryGenreName'', PStr ''Games''),
      (''averageUserRating'', PFloat (Fin (9 / 2))),
      (''userRatingCount'', PInt 1200),
      (''price'', PInt 0),
      (''contentAdvisoryRating'', PStr ''4+''),
      (''fileSizeBytes'', PStr ''2097152''),
      (''currentVersionReleaseDate'', PStr ''2024-01-01T00:00:00Z''),
      (''version'', PStr ''1.0''),
      (''minimumOsVersion'', PStr ''15.0'')]"

definition gp_row :: row where
  "gp_row = map_of
     [(''app_name'', PStr ''Clash''),
      (''category'', PStr ''GAME''),
      (''rating'', PFloat (Fin (9 / 2))),
      (''review_count'', PFloat (Fin 2300000)),
      (''size_mb'', PFloat (Fin 19)),
      (''installs'', PInt 1000000),
      (''app_type'', PStr ''Free''),
      (''price_usd'', PFloat (Fin 0)),
      (''content_rating'', PStr ''Everyone''),
      (''genres'', PStr ''Action''),
      (''last_updated'', PNone),
      (''current_version'', PStr ''1.0''),
      (''android_version'', PStr ''4.1 and up'')]"

text \<open>An iTunes record whose genre the API left out (the fetch loop stores \<open>''\<close>), and a
  Google Play row whose category cell is empty in the file (read back as \<open>nan\<close>).\<close>

definition ios_row_no_genre :: row where
  "ios_row_no_genre = ios_row(''primaryGenreName'' \<mapsto> PStr [])"

definition gp_row_no_category :: row where
  "gp_row_no_category = gp_row(''category'' \<mapsto> PFloat NaN)"

text \<open>Cleaned rows of one app listed twice, and a row without a date.\<close>

definition dup_row_old :: row where
  "dup_row_old = map_of [(''App'', PStr ''Notes''), (''Rating'', PFloat (Fin 4)), (''Last_Updated_Date'', PTime 1)]"

definition dup_row_new :: row where
  "dup_row_new = map_of [(''App'', PStr ''Notes''), (''Rating'', PFloat (Fin 5)), (''Last_Updated_Date'', PTime 9)]"

definition undated_row :: row where
  "undated_row = map_of [(''App'', PStr ''Maps''), (''Rating'', PFloat (Fin 2)), (''Last_Updated_Date'', PNone)]"

text \<open>
  Eighteen cleaned rows that share one timestamp; the rows at positions 2 and 3 are the
  same app.
\<close>

definition tied_row :: "string \<Rightarrow> int \<Rightarrow> row" where
  "tied_row name k = map_of [(''App'', PStr name), (''Rating'', PInt k), (''Last_Updated_Date'', PTime 9)]"

definition tied_table :: "row list" where
  "tied_table =
     [tied_row ''App00'' 0,
      tied_row ''App01'' 1,
      tied_row ''Notes'' 2,
      tied_row ''Notes'' 3,
      tied_row ''App04'' 4,
      tied_row ''App05'' 5,
      tied_row ''App06'' 6,
      tied_row ''App07'' 7,
      tied_row ''App08'' 8,
      tied_row ''App09'' 9,
      tied_row ''App10'' 10,
      tied_row ''App11'' 11,
      tied_row ''App12'' 12,
      tied_row ''App13'' 13,
      tied_row ''App14'' 14,
      tied_row ''App15'' 15,
      tied_row ''App16'' 16,
      tied_row ''App17'' 17]"

text \<open>A raw Google Play row as \<open>read_csv\<close> yields it, and the same row with an empty
  \<open>Type\<close> cell.\<close>

definition android_row :: row where
  "android_row = map_of
     [(''App'', PStr ''Clash''),
      (''Category'', PStr ''GAME''),
      (''Rating'', PFloat (Fin (9 / 2))),
      (''Reviews'', PStr ''2.3M''),
      (''Size'', PStr ''19M''),
      (''Installs'', PStr ''1,000,000+''),
      (''Type'', PStr ''Free''),
      (''Price'', PStr ''0''),
      (''Content Rating'', PStr ''Everyone''),
      (''Genres'', PStr ''Action''),
      (''Last Updated'', PStr ''January 7, 2018''),
      (''Current Ver'', PStr ''1.0''),
      (''Android Ver'', PStr ''4.1 and up'')]"

definition android_row_no_type :: row where
  "android_row_no_type = android_row(''Type'' \<mapsto> PFloat NaN)"

section \<open>Evaluating the parsers\<close>

lemmas parse_defs =
  strip_def strip_by_def is_space_def is_cspace_def remove_char_def lower_def lower_char_def
  py_float_def py_int_def split_sign_def split_first_def parse_decimal_def parse_mantissa_def
  parse_exponent_def scale10_def all_digits_def is_digit_def nat_of_digits_def digit_val_def
  char_of_def bit_Suc_0_iff

lemma py_float_examples:
  "py_float ''1.2'' = Inr (Fin (6 / 5))"
  "py_float '' 1_000.5e-1 '' = Inr (Fin (2001 / 20))"
  "py_float ''-Infinity'' = Inr NegInf"
  "py_float ''nan'' = Inr NaN"
  "py_float ''1,5'' = Inl ValueError"
  "py_float [] = Inl ValueError"
  by (simp_all add: parse_defs)

lemma py_int_examples:
  "py_int ''1000000'' = Inr 1000000"
  "py_int ''-12'' = Inr (- 12)"
  "py_int ''1.0'' = Inl ValueError"
  "py_int [] = Inl ValueError"
  by (simp_all add: parse_defs)

section \<open>The column normalizers\<close>

text \<open>
  The installs, price and date normalizers guard every conversion, so they return for
  every cell; a cell they cannot read becomes the fallback of the column.
\<close>

lemma convert_installs_returns: "\<exists>i. convert_installs L x = Inr (PInt i)"
  by (simp add: convert_installs_def split: sum.splits)

lemma convert_price_returns: "\<exists>f. convert_price L x = Inr (PFloat f)"
  by (simp add: convert_price_def Let_def split: sum.splits)

lemma convert_date_returns: "convert_date L x = Inr PNone \<or> (\<exists>t. convert_date L x = Inr (PTime t))"
  by (simp add: convert_date_def split: option.splits)

lemma convert_installs_examples:
  "convert_installs L (PStr ''1,000,000+'') = Inr (PInt 1000000)"
  "convert_installs L (PStr ''Free'') = Inr (PInt 0)"
  "convert_installs L (PFloat NaN) = Inr (PInt 0)"
  by (simp_all add: convert_installs_def parse_defs)

lemma convert_price_examples:
  "convert_price L (PStr ''Free'') = Inr (PFloat (Fin 0))"
  "convert_price L (PStr ''$4.99'') = Inr (PFloat (Fin (499 / 100)))"
  "convert_price L (PStr ''Everyone'') = Inr (PFloat (Fin 0))"
  by (simp_all add: convert_price_def parse_defs)

text \<open>
  The reviews and size normalizers guard only their last branch. Without \<open>M\<close> and \<open>k\<close> in
  the cell they return as well.
\<close>

lemma convert_reviews_plain_returns:
  "CHR ''M'' \<notin> set (strip (py_str L x)) \<Longrightarrow> CHR ''k'' \<notin> set (strip (py_str L x)) \<Longrightarrow>
   \<exists>v. convert_reviews L x = Inr v"
  by (simp add: convert_reviews_def Let_def split: sum.splits)

lemma convert_size_plain_returns:
  "CHR ''M'' \<notin> set (strip (py_str L x)) \<Longrightarrow> CHR ''k'' \<notin> set (strip (py_str L x)) \<Longrightarrow>
   \<exists>v. convert_size L x = Inr v"
  by (simp add: convert_size_def Let_def split: sum.splits)

text \<open>
  A readable number followed by \<open>M\<close> is the number of millions for a count and the number
  itself for a size; followed by \<open>k\<close> it is the number of thousands for a count and the
  number divided by 1024 for a size. The number may hold thousands separators.
\<close>

lemma strip_suffixed:
  assumes "\<forall>c\<in>set s. \<not> is_space c" and "\<not> is_space x"
  shows "strip (s @ [x]) = s @ [x]"
proof -
  have "dropWhile is_space (s @ [x]) = s @ [x]"
    using assms by (cases s) auto
  then show ?thesis
    using assms(2) by (simp add: strip_def strip_by_def)
qed

lemma remove_char_suffixed: "x \<notin> set s \<Longrightarrow> remove_char x (s @ [x]) = s"
  by (auto simp: remove_char_def filter_id_conv)

lemma not_space_letters: "\<not> is_space (CHR ''M'')" "\<not> is_space (CHR ''k'')"
  by (simp_all add: is_space_def)

lemma convert_reviews_M_suffix:
  assumes "\<forall>c\<in>set s. \<not> is_space c" and "CHR ''M'' \<notin> set s"
    and "py_float (remove_char (CHR '','') s) = Inr f"
  shows "convert_reviews L (PStr (s @ ''M'')) = Inr (PFloat (fmul f 1000000))"
proof -
  have "strip (s @ ''M'') = s @ ''M''"
    using assms(1) by (rule strip_suffixed) (rule not_space_letters)
  moreover have "remove_char (CHR ''M'') (s @ ''M'') = s"
    using assms(2) by (rule remove_char_suffixed)
  moreover have "s @ ''M'' \<noteq> ''NaN''" "s @ ''M'' \<noteq> ''0''"
    by (simp_all add: append_eq_Cons_conv)
  ultimately show ?thesis
    using assms(3) by (simp add: convert_reviews_def)
qed

lemma convert_reviews_k_suffix:
  assumes "\<forall>c\<in>set s. \<not> is_space c" and "CHR ''M'' \<notin> set s" and "CHR ''k'' \<notin> set s"
    and "py_float (remove_char (CHR '','') s) = Inr f"
  shows "convert_reviews L (PStr (s @ ''k'')) = Inr (PFloat (fmul f 1000))"
proof -
  have "strip (s @ ''k'') = s @ ''k''"
    using assms(1) by (rule strip_suffixed) (rule not_space_letters)
  moreover have "remove_char (CHR ''k'') (s @ ''k'') = s"
    using assms(3) by (rule remove_char_suffixed)
  moreover have "s @ ''k'' \<noteq> ''NaN''" "s @ ''k'' \<noteq> ''0''"
    by (simp_all add: append_eq_Cons_conv)
  ultimately show ?thesis
    using assms(2,4) by (simp add: convert_reviews_def)
qed

lemma convert_size_M_suffix:
  assumes "\<forall>c\<in>set s. \<not> is_space c" and "CHR ''M'' \<notin> set s"
    and "py_float (remove_char (CHR '','') s) = Inr f"
  shows "convert_size L (PStr (s @ ''M'')) = Inr (PFloat f)"
proof -
  have "strip (s @ ''M'') = s @ ''M''"
    using assms(1) by (rule strip_suffixed) (rule not_space_letters)
  moreover have "remove_char (CHR ''M'') (s @ ''M'') = s"
    using assms(2) by (rule remove_char_suffixed)
  moreover have "s @ ''M'' \<noteq> ''Varies with device''"
    by (simp add: append_eq_Cons_conv)
  ultimately show ?thesis
    using assms(3) by (simp add: convert_size_def)
qed

lemma convert_size_k_suffix:
  assumes "\<forall>c\<in>set s. \<not> is_space c" and "CHR ''M'' \<notin> set s" and "CHR ''k'' \<notin> set s"
    and "py_float (remove_char (CHR '','') s) = Inr f"
  shows "convert_size L (PStr (s @ ''k'')) = Inr (PFloat (fdiv f 1024))"
proof -
  have "strip (s @ ''k'') = s @ ''k''"
    using assms(1) by (rule strip_suffixed) (rule not_space_letters)
  moreover have "remove_char (CHR ''k'') (s @ ''k'') = s"
    using assms(3) by (rule remove_char_suffixed)
  moreover have "s @ ''k'' \<noteq> ''Varies with device''"
    by (simp add: append_eq_Cons_conv)
  ultimately show ?thesis
    using assms(2,4) by (simp add: convert_size_def)
qed

text \<open>
  C1. Every column normalizer returns the fallback of its column on a malformed cell and
  never raises. The code does not do this: in \<open>convert_reviews\<close> and \<open>convert_size\<close> the
  branches for a cell containing \<open>M\<close> or \<open>k\<close> call \<open>float(...)\<close> outside any \<open>try\<close>, so
  the reviews cell \<open>M\<close> and the size cell \<open>k\<close> end the run with a \<open>ValueError\<close>.
\<close>

theorem normalizers_raise_on_bare_suffix:
  "convert_reviews L (PStr ''M'') = Inl ValueError \<and> convert_size L (PStr ''k'') = Inl ValueError"
  by (simp add: convert_reviews_def convert_size_def parse_defs)

text \<open>
  C4. A count suffixed \<open>M\<close> is multiplied by 1,000,000 and one suffixed \<open>k\<close> by 1,000,
  thousands separators removed; \<open>1.2M\<close> gives 1,200,000 and \<open>500k\<close> gives 500,000; an
  empty, missing or unreadable cell gives 0. The code agrees on the readable cells and
  on the empty and missing ones, and on an unreadable cell without \<open>M\<close> and \<open>k\<close>; the
  unreadable cell \<open>unknown\<close> contains a \<open>k\<close> and raises \<open>ValueError\<close> instead of giving 0.
\<close>

theorem convert_reviews_cases:
  "convert_reviews L (PStr ''1.2M'') = Inr (PFloat (Fin 1200000))
   \<and> convert_reviews L (PStr ''500k'') = Inr (PFloat (Fin 500000))
   \<and> convert_reviews L (PStr ''1,234'') = Inr (PFloat (Fin 1234))
   \<and> convert_reviews L (PStr []) = Inr (PInt 0)
   \<and> convert_reviews L PNone = Inr (PInt 0)
   \<and> convert_reviews L (PFloat NaN) = Inr (PInt 0)
   \<and> convert_reviews L (PStr ''n/a'') = Inr (PInt 0)
   \<and> convert_reviews L (PStr ''unknown'') = Inl ValueError"
  by (simp add: convert_reviews_def parse_defs)

text \<open>
  C5. The size \<open>Varies with device\<close> is the missing value, \<open>19M\<close> is 19.0, \<open>512k\<close> is 0.5,
  and an unreadable size is missing, never zero. The code agrees on the first three and
  on an unreadable cell without \<open>M\<close> and \<open>k\<close>; the unreadable cell \<open>N/A MB\<close> contains an
  \<open>M\<close> and raises \<open>ValueError\<close> instead of giving the missing value.
\<close>

theorem convert_size_cases:
  "convert_size L (PStr ''Varies with device'') = Inr (PFloat NaN)
   \<and> convert_size L (PStr ''19M'') = Inr (PFloat (Fin 19))
   \<and> convert_size L (PStr ''512k'') = Inr (PFloat (Fin (1 / 2)))
   \<and> convert_size L (PStr ''1,000+'') = Inr (PFloat NaN)
   \<and> convert_size L PNone = Inr (PFloat NaN)
   \<and> convert_size L (PStr ''N/A MB'') = Inl ValueError"
  by (simp add: convert_size_def parse_defs)

section \<open>The schema unifier\<close>

subsection \<open>Results of the error monad\<close>

lemma ebind_Inr_iff: "ebind m f = Inr y \<longleftrightarrow> (\<exists>x. m = Inr x \<and> f x = Inr y)"
  by (cases m) (simp_all add: ebind_def)

lemma ebind_Inl_iff: "ebind m f = Inl e \<longleftrightarrow> m = Inl e \<or> (\<exists>x. m = Inr x \<and> f x = Inl e)"
  by (cases m) (simp_all add: ebind_def)

lemma getitem_Inr_iff: "getitem r k = Inr v \<longleftrightarrow> r k = Some v"
  by (simp add: getitem_def split: option.splits)

lemma emap_Inr_iff: "emap f xs = Inr ys \<longleftrightarrow> list_all2 (\<lambda>x y. f x = Inr y) xs ys"
proof (induction xs arbitrary: ys)
  case Nil
  then show ?case by auto
next
  case (Cons x xs)
  show ?case
    by (cases ys) (auto simp: ebind_Inr_iff Cons.IH)
qed

lemma emap_returns: "(\<And>x. x \<in> set xs \<Longrightarrow> \<exists>y. f x = Inr y) \<Longrightarrow> \<exists>ys. emap f xs = Inr ys"
  by (induction xs) (auto simp: ebind_Inr_iff)

lemma create_unified_schema_Inr_iff:
  "create_unified_schema L gp ios = Inr out \<longleftrightarrow>
     (\<exists>a b. out = a @ b \<and> list_all2 (\<lambda>r u. unify_gp L r = Inr u) gp a
            \<and> list_all2 (\<lambda>r u. unify_ios L r = Inr u) ios b)"
  by (auto simp: create_unified_schema_def ebind_Inr_iff emap_Inr_iff)

lemma unify_gp_fields:
  assumes "unify_gp L r = Inr u"
  shows "platform u = ''Android''" and "data_source u = ''Google Play Store''"
    and "r ''category'' = Some (original_category u)"
    and "unified_category u = map_category (original_category u)"
    and "\<exists>n. r ''app_name'' = Some n \<and> app_id u = gp_app_id L n \<and> app_name u = py_str L n"
    and "\<exists>t. r ''app_type'' = Some t \<and> app_type u = py_str L t"
    and "\<exists>v. r ''review_count'' = Some v \<and> review_count u = PFloat (safe_convert_to_float v)"
    and "\<exists>v. r ''price_usd'' = Some v \<and> price_usd u = safe_convert_to_float v"
  using assms by (auto simp: unify_gp_def ebind_Inr_iff getitem_Inr_iff)

lemma unify_ios_fields:
  assumes "unify_ios L r = Inr u"
  shows "platform u = ''iOS''" and "data_source u = ''iTunes App Store''"
    and "installs u = 0"
    and "\<exists>g. r ''primaryGenreName'' = Some g \<and> original_category u = PStr (py_str L g)"
    and "unified_category u = map_category (original_category u)"
    and "\<exists>t i. r ''trackId'' = Some t \<and> safe_convert_to_int t = Inr i \<and> app_id u = ios_app_id i"
    and "\<exists>p. r ''price'' = Some p \<and> price_usd u = safe_convert_to_float p
           \<and> app_type u = (if safe_convert_to_float p = Fin 0 then ''Free'' else ''Paid'')"
    and "\<exists>b. r ''fileSizeBytes'' = Some b \<and> size_mb u = ios_size_mb (safe_convert_to_float b)"
    and "\<exists>v. r ''averageUserRating'' = Some v \<and> rating u = safe_convert_to_float v"
  using assms by (auto simp: unify_ios_def ebind_Inr_iff getitem_Inr_iff)

lemmas unify_eval =
  unify_gp_def unify_ios_def getitem_def get_default_def ebind_def safe_convert_to_int_def
  safe_convert_to_float_def map_category_def category_mapping_def gp_app_id_def ios_app_id_def

lemma gp_row_unifies: "\<exists>u. unify_gp sample_lib gp_row = Inr u"
  by (simp add: gp_row_def unify_eval parse_defs)

lemma ios_row_unifies: "\<exists>u. unify_ios sample_lib ios_row = Inr u"
  by (simp add: ios_row_def unify_eval parse_defs)

lemma sample_unified: "\<exists>out. create_unified_schema sample_lib [gp_row] [ios_row] = Inr out"
  using gp_row_unifies ios_row_unifies by (auto simp: create_unified_schema_Inr_iff)

lemma list_all2_nth_iff:
  "list_all2 P xs ys \<longleftrightarrow> length ys = length xs \<and> (\<forall>i<length xs. P (xs ! i) (ys ! i))"
  by (auto simp: list_all2_conv_all_nth)

text \<open>
  C7. The unified table is the Google Play rows in arrival order followed by the iOS rows
  in arrival order: when the unifier returns, its row count is the sum of the two source
  counts, row \<open>i\<close> of the Google Play table is unified into row \<open>i\<close>, row \<open>j\<close> of the iTunes
  table into row \<open>length gp + j\<close>, and nothing is dropped or merged. Conversely it returns
  whenever every row unifies.
\<close>

theorem unified_is_concatenation:
  "(create_unified_schema L gp ios = Inr out \<longleftrightarrow>
      length out = length gp + length ios
      \<and> (\<forall>i<length gp. unify_gp L (gp ! i) = Inr (out ! i))
      \<and> (\<forall>j<length ios. unify_ios L (ios ! j) = Inr (out ! (length gp + j))))
   \<and> (create_unified_schema L gp ios = Inr out \<longrightarrow>
      (\<forall>i<length out. platform (out ! i) = (if i < length gp then ''Android'' else ''iOS'')))"
proof -
  have char: "create_unified_schema L gp ios = Inr out \<longleftrightarrow>
      length out = length gp + length ios
      \<and> (\<forall>i<length gp. unify_gp L (gp ! i) = Inr (out ! i))
      \<and> (\<forall>j<length ios. unify_ios L (ios ! j) = Inr (out ! (length gp + j)))"
    (is "?lhs \<longleftrightarrow> ?rhs")
  proof
    assume ?lhs
    then obtain a b where out: "out = a @ b"
      and a: "list_all2 (\<lambda>r u. unify_gp L r = Inr u) gp a"
      and b: "list_all2 (\<lambda>r u. unify_ios L r = Inr u) ios b"
      by (auto simp: create_unified_schema_Inr_iff)
    from a have la: "length a = length gp" and ia: "\<forall>i<length gp. unify_gp L (gp ! i) = Inr (a ! i)"
      by (simp_all add: list_all2_nth_iff)
    from b have lb: "length b = length ios" and ib: "\<forall>j<length ios. unify_ios L (ios ! j) = Inr (b ! j)"
      by (simp_all add: list_all2_nth_iff)
    show ?rhs
      using la lb ia ib by (simp add: out nth_append)
  next
    assume r: ?rhs
    let ?a = "take (length gp) out" and ?b = "drop (length gp) out"
    have "out = ?a @ ?b" by simp
    moreover have "list_all2 (\<lambda>r u. unify_gp L r = Inr u) gp ?a"
      using r by (simp add: list_all2_nth_iff)
    moreover have "list_all2 (\<lambda>r u. unify_ios L r = Inr u) ios ?b"
      using r by (simp add: list_all2_nth_iff)
    ultimately show ?lhs
      unfolding create_unified_schema_Inr_iff by blast
  qed
  have plat: "platform (out ! i) = (if i < length gp then ''Android'' else ''iOS'')"
    if h: "create_unified_schema L gp ios = Inr out" and i: "i < length out" for i
  proof (cases "i < length gp")
    case True
    with h char have "unify_gp L (gp ! i) = Inr (out ! i)" by blast
    then show ?thesis using True by (simp add: unify_gp_fields(1))
  next
    case False
    with h char i have "unify_ios L (ios ! (i - length gp)) = Inr (out ! (length gp + (i - length gp)))"
      by (metis add_diff_inverse_nat nat_add_left_cancel_less)
    then show ?thesis using False by (simp add: unify_ios_fields(1))
  qed
  show ?thesis using char plat by blast
qed

theorem unified_is_concatenation_witness:
  "\<exists>out. create_unified_schema sample_lib [gp_row] [ios_row] = Inr out
     \<and> length out = 2 \<and> unify_gp sample_lib gp_row = Inr (out ! 0)
     \<and> unify_ios sample_lib ios_row = Inr (out ! 1)
     \<and> platform (out ! 0) = ''Android'' \<and> platform (out ! 1) = ''iOS''"
proof -
  obtain out where h: "create_unified_schema sample_lib [gp_row] [ios_row] = Inr out"
    using sample_unified by blast
  from unified_is_concatenation [of sample_lib "[gp_row]" "[ios_row]" out] h
  show ?thesis by (intro exI [of _ out]) simp
qed

lemma list_all2_in_right: "list_all2 P xs ys \<Longrightarrow> y \<in> set ys \<Longrightarrow> \<exists>x\<in>set xs. P x y"
  by (induction rule: list_all2_induct) auto

lemma unified_rows_cases:
  assumes "create_unified_schema L gp ios = Inr out" and "u \<in> set out"
  shows "(\<exists>r\<in>set gp. unify_gp L r = Inr u) \<or> (\<exists>r\<in>set ios. unify_ios L r = Inr u)"
proof -
  from assms(1) obtain a b where out: "out = a @ b"
    and a: "list_all2 (\<lambda>r u. unify_gp L r = Inr u) gp a"
    and b: "list_all2 (\<lambda>r u. unify_ios L r = Inr u) ios b"
    by (auto simp: create_unified_schema_Inr_iff)
  from assms(2) out consider "u \<in> set a" | "u \<in> set b" by auto
  then show ?thesis
    using list_all2_in_right [OF a] list_all2_in_right [OF b] by cases blast+
qed

text \<open>
  C10. A row that comes from the iTunes source has \<open>installs = 0\<close> whatever the record
  holds; in the unified table only Google Play rows can carry another value.
\<close>

theorem ios_installs_zero:
  "(unify_ios L r = Inr u \<longrightarrow> installs u = 0)
   \<and> (create_unified_schema L gp ios = Inr out \<longrightarrow>
        (\<forall>u\<in>set out. (data_source u = ''iTunes App Store'' \<longrightarrow> installs u = 0)
                     \<and> (installs u \<noteq> 0 \<longrightarrow> platform u = ''Android'' \<and> data_source u = ''Google Play Store'')))"
proof -
  have "installs v = 0 \<and> (installs v \<noteq> 0 \<longrightarrow> platform v = ''Android'' \<and> data_source v = ''Google Play Store'')"
    if "unify_ios L r' = Inr v" for r' v
    using that by (simp add: unify_ios_fields(3))
  moreover have "data_source v \<noteq> ''iTunes App Store'' \<and> platform v = ''Android'' \<and> data_source v = ''Google Play Store''"
    if "unify_gp L r' = Inr v" for r' v
    using that by (simp add: unify_gp_fields(1,2))
  ultimately show ?thesis
    using unified_rows_cases [of L gp ios out] unify_ios_fields(3) [of L r u]
    by (metis)
qed

theorem ios_installs_zero_witness:
  "\<exists>out. create_unified_schema sample_lib [gp_row] [ios_row] = Inr out
     \<and> installs (out ! 1) = 0 \<and> data_source (out ! 1) = ''iTunes App Store''
     \<and> installs (out ! 0) = 1000000 \<and> platform (out ! 0) = ''Android''"
proof -
  obtain a b where a: "unify_gp sample_lib gp_row = Inr a" and b: "unify_ios sample_lib ios_row = Inr b"
    using gp_row_unifies ios_row_unifies by blast
  then have out: "create_unified_schema sample_lib [gp_row] [ios_row] = Inr [a, b]"
    by (simp add: create_unified_schema_def ebind_def)
  have ia: "installs a = 1000000"
    using a by (simp add: gp_row_def unify_eval parse_defs) (auto)
  have "installs b = 0 \<and> platform a = ''Android''"
    using ios_installs_zero [of sample_lib ios_row b "[gp_row]" "[ios_row]" "[a, b]"] a b out ia
    by simp
  then show ?thesis
    using out ia unify_ios_fields(2) [OF b] by (intro exI [of _ "[a, b]"]) simp
qed

lemma category_values_nonempty: "map_of category_mapping s = Some v \<Longrightarrow> v \<noteq> []"
  by (drule map_of_SomeD) (auto simp: category_mapping_def)

lemma empty_label_unmapped: "map_of category_mapping [] = None"
  by (simp add: category_mapping_def)

lemma map_category_empty_iff: "map_category c = PStr [] \<longleftrightarrow> c = PStr []"
  by (cases c) (auto simp: map_category_def empty_label_unmapped split: option.splits dest: category_values_nonempty)

lemma isna_map_category: "isna (map_category c) = isna c"
  by (cases c) (auto simp: map_category_def split: option.splits)

text \<open>
  C6, as amended. For every row of the unified table, \<open>unified_category\<close> is the entry of
  the category mapping when the source label (kept in \<open>original_category\<close>) is a key of
  the mapping, and the source label itself otherwise. It is the empty string exactly when
  the source label is the empty string, and missing exactly when the source label is
  missing: the label of a Google Play row is the \<open>category\<close> cell as it is, the label of
  an iOS row is \<open>str(primaryGenreName)\<close>.
\<close>

theorem unified_category_follows_label:
  assumes "create_unified_schema L gp ios = Inr out" and "u \<in> set out"
  shows "(\<forall>s. original_category u = PStr s \<longrightarrow>
            unified_category u = PStr (case map_of category_mapping s of Some v \<Rightarrow> v | None \<Rightarrow> s))
       \<and> ((\<forall>s. original_category u \<noteq> PStr s) \<longrightarrow> unified_category u = original_category u)
       \<and> (unified_category u = PStr [] \<longleftrightarrow> original_category u = PStr [])
       \<and> (isna (unified_category u) \<longleftrightarrow> isna (original_category u))
       \<and> ((\<exists>r\<in>set gp. r ''category'' = Some (original_category u) \<and> platform u = ''Android'')
          \<or> (\<exists>r\<in>set ios. \<exists>g. r ''primaryGenreName'' = Some g
                \<and> original_category u = PStr (py_str L g) \<and> platform u = ''iOS''))"
proof -
  have m: "unified_category u = map_category (original_category u)"
    using unified_rows_cases [OF assms] unify_gp_fields(4) unify_ios_fields(5) by blast
  have src: "(\<exists>r\<in>set gp. r ''category'' = Some (original_category u) \<and> platform u = ''Android'')
          \<or> (\<exists>r\<in>set ios. \<exists>g. r ''primaryGenreName'' = Some g
                \<and> original_category u = PStr (py_str L g) \<and> platform u = ''iOS'')"
    using unified_rows_cases [OF assms] unify_gp_fields(1,3) unify_ios_fields(1,4) by metis
  have a: "\<forall>s. original_category u = PStr s \<longrightarrow>
            unified_category u = PStr (case map_of category_mapping s of Some v \<Rightarrow> v | None \<Rightarrow> s)"
    by (auto simp: m map_category_def split: option.splits)
  have b: "(\<forall>s. original_category u \<noteq> PStr s) \<longrightarrow> unified_category u = original_category u"
    by (cases "original_category u") (auto simp: m map_category_def)
  show ?thesis
    using a b src by (simp add: m map_category_empty_iff isna_map_category)
qed

lemma no_genre_unifies: "\<exists>u. unify_ios sample_lib ios_row_no_genre = Inr u \<and> unified_category u = PStr []"
  by (simp add: ios_row_no_genre_def ios_row_def unify_eval parse_defs)

lemma no_category_unifies: "\<exists>u. unify_gp sample_lib gp_row_no_category = Inr u \<and> unified_category u = PFloat NaN"
  by (simp add: gp_row_no_category_def gp_row_def unify_eval parse_defs)

text \<open>
  C6 as stated (\<open>unified_category\<close> is never null and never empty) fails: a Google Play
  row with a missing category keeps \<open>nan\<close>, an iTunes record without a genre keeps \<open>''\<close>.
\<close>

theorem unified_category_can_be_empty:
  "map_sum id (map unified_category)
     (create_unified_schema sample_lib [gp_row_no_category] [ios_row_no_genre])
   = Inr [PFloat NaN, PStr []]"
proof -
  obtain a b where "unify_gp sample_lib gp_row_no_category = Inr a" "unified_category a = PFloat NaN"
    "unify_ios sample_lib ios_row_no_genre = Inr b" "unified_category b = PStr []"
    using no_genre_unifies no_category_unifies by blast
  then show ?thesis
    by (simp add: create_unified_schema_def ebind_def)
qed

theorem unified_category_follows_label_witness:
  "\<exists>out. create_unified_schema sample_lib [gp_row] [ios_row] = Inr out
     \<and> map unified_category out = [PStr ''Games'', PStr ''Games'']
     \<and> map original_category out = [PStr ''GAME'', PStr ''Games'']"
proof -
  obtain a b where a: "unify_gp sample_lib gp_row = Inr a" and b: "unify_ios sample_lib ios_row = Inr b"
    using gp_row_unifies ios_row_unifies by blast
  then have out: "create_unified_schema sample_lib [gp_row] [ios_row] = Inr [a, b]"
    by (simp add: create_unified_schema_def ebind_def)
  have oa: "original_category a = PStr ''GAME''"
    using unify_gp_fields(3) [OF a] by (simp add: gp_row_def)
  have ob: "original_category b = PStr ''Games''"
    using unify_ios_fields(4) [OF b] by (auto simp: ios_row_def)
  have "unified_category a = PStr ''Games''"
    using unified_category_follows_label [OF out, of a] oa by (simp add: category_mapping_def)
  moreover have "unified_category b = PStr ''Games''"
    using unified_category_follows_label [OF out, of b] ob by (simp add: category_mapping_def)
  ultimately show ?thesis
    using out oa ob by (intro exI [of _ "[a, b]"]) simp
qed

lemma unify_gp_unified_row: "unify_gp L (unified_row u) = Inl (KeyError ''category'')"
  by (simp add: unify_gp_def unified_row_def getitem_def ebind_def)

lemma unify_ios_unified_row: "unify_ios L (unified_row u) = Inl (KeyError ''fileSizeBytes'')"
  by (simp add: unify_ios_def unified_row_def getitem_def ebind_def)

lemma emap_first_fails: "f x = Inl e \<Longrightarrow> emap f (x # xs) = Inl e"
  by (simp add: ebind_def)

text \<open>
  C9, as amended. The unifier has no pass-through for a table that is already unified.
  Given its own non-empty output in place of the Google Play table it raises
  \<open>KeyError('category')\<close>, in place of the iTunes table \<open>KeyError('fileSizeBytes')\<close>, and no
  table is produced; only the empty output comes back unchanged, with its row count 0.
\<close>

theorem rerun_on_unified_output:
  assumes "create_unified_schema L gp ios = Inr U"
  shows "(U \<noteq> [] \<longrightarrow>
            create_unified_schema L (map unified_row U) other = Inl (KeyError ''category'')
          \<and> create_unified_schema L [] (map unified_row U) = Inl (KeyError ''fileSizeBytes''))
       \<and> (U = [] \<longrightarrow> create_unified_schema L (map unified_row U) (map unified_row U) = Inr [])"
proof (cases U)
  case Nil
  then show ?thesis by (simp add: create_unified_schema_def ebind_def)
next
  case (Cons u us)
  have "emap (unify_gp L) (map unified_row U) = Inl (KeyError ''category'')"
    unfolding Cons list.map by (rule emap_first_fails) (rule unify_gp_unified_row)
  moreover have "emap (unify_ios L) (map unified_row U) = Inl (KeyError ''fileSizeBytes'')"
    unfolding Cons list.map by (rule emap_first_fails) (rule unify_ios_unified_row)
  ultimately show ?thesis
    using Cons by (simp add: create_unified_schema_def ebind_def)
qed

text \<open>
  C9 as stated (the unifier re-run on its output keeps the row count) fails on a
  two-row output: the second run raises and has no rows.
\<close>

theorem rerun_raises_key_error:
  "(case create_unified_schema sample_lib [gp_row] [ios_row] of
      Inl e \<Rightarrow> False
    | Inr U \<Rightarrow> length U = 2
        \<and> create_unified_schema sample_lib (map unified_row U) [] = Inl (KeyError ''category'')
        \<and> create_unified_schema sample_lib [] (map unified_row U) = Inl (KeyError ''fileSizeBytes''))"
proof -
  obtain a b where a: "unify_gp sample_lib gp_row = Inr a" and b: "unify_ios sample_lib ios_row = Inr b"
    using gp_row_unifies ios_row_unifies by blast
  then have out: "create_unified_schema sample_lib [gp_row] [ios_row] = Inr [a, b]"
    by (simp add: create_unified_schema_def ebind_def)
  show ?thesis
    by (subst out) (simp add: create_unified_schema_def ebind_def unify_gp_unified_row unify_ios_unified_row)
qed

theorem rerun_on_unified_output_witness:
  "\<exists>U. create_unified_schema sample_lib [gp_row] [ios_row] = Inr U \<and> U \<noteq> []
     \<and> create_unified_schema sample_lib (map unified_row U) [] = Inl (KeyError ''category'')
     \<and> create_unified_schema sample_lib [] (map unified_row U) = Inl (KeyError ''fileSizeBytes'')"
proof -
  obtain U where h: "create_unified_schema sample_lib [gp_row] [ios_row] = Inr U"
    using sample_unified by blast
  then have "length U = 2"
    by (auto simp: create_unified_schema_Inr_iff list_all2_Cons1)
  then have ne: "U \<noteq> []" by auto
  from rerun_on_unified_output [OF h, of "[]"] ne h show ?thesis by blast
qed

subsection \<open>Application identifiers\<close>

lemma of_char_digit_char: "d < 10 \<Longrightarrow> (of_char (digit_char d) :: nat) = 48 + d"
  by (simp add: digit_char_def)

lemma digit_val_digit_char: "d < 10 \<Longrightarrow> digit_val (digit_char d) = d"
  by (simp add: digit_val_def of_char_digit_char)

lemma digit_char_not_minus: "d < 10 \<Longrightarrow> digit_char d \<noteq> CHR ''-''"
proof
  assume d: "d < 10" and "digit_char d = CHR ''-''"
  then have "(of_char (digit_char d) :: nat) = of_char (CHR ''-'')" by simp
  with d show False by (simp add: of_char_digit_char)
qed

lemma nat_of_digits_snoc: "nat_of_digits (xs @ [c]) = 10 * nat_of_digits xs + digit_val c"
  by (simp add: nat_of_digits_def)

lemma nat_of_digits_of_nat: "nat_of_digits (digits_of_nat n) = n"
proof (induction n rule: digits_of_nat.induct)
  case (1 n)
  show ?case
  proof (cases "n < 10")
    case True
    then show ?thesis
      by (subst digits_of_nat.simps) (simp add: nat_of_digits_def digit_val_digit_char)
  next
    case False
    then show ?thesis
      using "1.IH" by (subst digits_of_nat.simps) (simp add: nat_of_digits_snoc digit_val_digit_char)
  qed
qed

lemma digits_of_nat_no_minus: "CHR ''-'' \<notin> set (digits_of_nat n)"
proof (induction n rule: digits_of_nat.induct)
  case (1 n)
  show ?case
  proof (cases "n < 10")
    case True
    then show ?thesis
      using digit_char_not_minus [of n] by (subst digits_of_nat.simps) auto
  next
    case False
    then show ?thesis
      using "1.IH" digit_char_not_minus [of "n mod 10"] by (subst digits_of_nat.simps) auto
  qed
qed

lemma digits_of_nat_inj: "digits_of_nat m = digits_of_nat n \<Longrightarrow> m = n"
  by (metis nat_of_digits_of_nat)

lemma str_of_int_inj: "str_of_int i = str_of_int j \<Longrightarrow> i = j"
proof -
  assume e: "str_of_int i = str_of_int j"
  have ne: "CHR ''-'' # xs \<noteq> digits_of_nat n" for xs n
    using digits_of_nat_no_minus [of n] by (metis list.set_intros(1))
  consider "i < 0" "j < 0" | "i < 0" "\<not> j < 0" | "\<not> i < 0" "j < 0" | "\<not> i < 0" "\<not> j < 0" by blast
  then show ?thesis
  proof cases
    case 1
    with e have "nat (- i) = nat (- j)" by (auto simp: str_of_int_def dest: digits_of_nat_inj)
    with 1 show ?thesis by simp
  next
    case 2
    with e ne show ?thesis by (simp add: str_of_int_def)
  next
    case 3
    with e ne [symmetric] show ?thesis by (simp add: str_of_int_def)
  next
    case 4
    with e have "nat i = nat j" by (auto simp: str_of_int_def dest: digits_of_nat_inj)
    with 4 show ?thesis by simp
  qed
qed

lemma gp_app_id_eq_iff:
  "gp_app_id L n1 = gp_app_id L n2 \<longleftrightarrow>
     str_hash L (py_str L n1) mod 1000000 = str_hash L (py_str L n2) mod 1000000"
  by (auto simp: gp_app_id_def dest: str_of_int_inj)

lemma ios_app_id_eq_iff: "ios_app_id i = ios_app_id j \<longleftrightarrow> i = j"
  by (auto simp: ios_app_id_def dest: str_of_int_inj)

lemma gp_ios_app_id_differ: "gp_app_id L n \<noteq> ios_app_id i"
  by (simp add: gp_app_id_def ios_app_id_def)

text \<open>The pigeonhole: infinitely many names, a million slots.\<close>

lemma hash_slot_collision: "\<exists>n1 n2. n1 \<noteq> n2 \<and> str_hash L n1 mod 1000000 = str_hash L n2 mod 1000000"
proof (rule ccontr)
  assume "\<not> ?thesis"
  then have inj: "inj (\<lambda>n. str_hash L n mod 1000000)"
    by (auto simp: inj_on_def)
  have "range (\<lambda>n. str_hash L n mod 1000000) \<subseteq> {0..<1000000}"
    by auto
  then have "finite (range (\<lambda>n. str_hash L n mod 1000000))"
    by (rule finite_subset) simp
  with inj have "finite (UNIV :: string set)"
    by (rule finite_imageD [rotated])
  then show False
    by (simp add: infinite_UNIV_listI)
qed

lemma list_all2_in_left: "list_all2 P xs ys \<Longrightarrow> x \<in> set xs \<Longrightarrow> \<exists>y\<in>set ys. P x y"
  by (induction rule: list_all2_induct) auto

lemma unify_gp_slot:
  assumes "unify_gp L r = Inr u"
  shows "\<exists>k. gp_slot L r = Some k \<and> app_id u = ''gp_'' @ str_of_int k"
  using unify_gp_fields(5) [OF assms] by (auto simp: gp_slot_def gp_app_id_def)

lemma unify_ios_track:
  assumes "unify_ios L r = Inr u"
  shows "\<exists>i. ios_track r = Some (Inr i) \<and> app_id u = ''ios_'' @ str_of_int i"
  using unify_ios_fields(6) [OF assms] by (auto simp: ios_track_def ios_app_id_def)

lemma gp_ids_distinct:
  assumes "list_all2 (\<lambda>r u. unify_gp L r = Inr u) gp a"
  shows "distinct (map app_id a) \<longleftrightarrow> distinct (map (gp_slot L) gp)"
  using assms
proof (induction rule: list_all2_induct)
  case Nil
  then show ?case by simp
next
  case (Cons r rs u us)
  obtain k where k: "gp_slot L r = Some k" "app_id u = ''gp_'' @ str_of_int k"
    using unify_gp_slot [OF Cons.hyps(1)] by blast
  have "app_id u \<in> app_id ` set us \<longleftrightarrow> gp_slot L r \<in> gp_slot L ` set rs"
  proof
    assume "app_id u \<in> app_id ` set us"
    then obtain v where v: "v \<in> set us" "app_id v = app_id u" by auto
    then obtain r' where r': "r' \<in> set rs" "unify_gp L r' = Inr v"
      using list_all2_in_right [OF Cons.hyps(2)] by blast
    obtain k' where k': "gp_slot L r' = Some k'" "app_id v = ''gp_'' @ str_of_int k'"
      using unify_gp_slot [OF r'(2)] by blast
    from k k' v(2) have "k' = k" by (auto dest: str_of_int_inj)
    with k k' r'(1) show "gp_slot L r \<in> gp_slot L ` set rs" by force
  next
    assume "gp_slot L r \<in> gp_slot L ` set rs"
    then obtain r' where r': "r' \<in> set rs" "gp_slot L r' = gp_slot L r" by auto
    obtain v where v: "v \<in> set us" "unify_gp L r' = Inr v"
      using list_all2_in_left [OF Cons.hyps(2) r'(1)] by blast
    obtain k' where k': "gp_slot L r' = Some k'" "app_id v = ''gp_'' @ str_of_int k'"
      using unify_gp_slot [OF v(2)] by blast
    from k k' r'(2) have "app_id u = app_id v" by simp
    then show "app_id u \<in> app_id ` set us" using v(1) by (rule image_eqI)
  qed
  with Cons.IH show ?case by simp
qed

lemma ios_ids_distinct:
  assumes "list_all2 (\<lambda>r u. unify_ios L r = Inr u) ios b"
  shows "distinct (map app_id b) \<longleftrightarrow> distinct (map ios_track ios)"
  using assms
proof (induction rule: list_all2_induct)
  case Nil
  then show ?case by simp
next
  case (Cons r rs u us)
  obtain k where k: "ios_track r = Some (Inr k)" "app_id u = ''ios_'' @ str_of_int k"
    using unify_ios_track [OF Cons.hyps(1)] by blast
  have "app_id u \<in> app_id ` set us \<longleftrightarrow> ios_track r \<in> ios_track ` set rs"
  proof
    assume "app_id u \<in> app_id ` set us"
    then obtain v where v: "v \<in> set us" "app_id v = app_id u" by auto
    then obtain r' where r': "r' \<in> set rs" "unify_ios L r' = Inr v"
      using list_all2_in_right [OF Cons.hyps(2)] by blast
    obtain k' where k': "ios_track r' = Some (Inr k')" "app_id v = ''ios_'' @ str_of_int k'"
      using unify_ios_track [OF r'(2)] by blast
    from k k' v(2) have "k' = k" by (auto dest: str_of_int_inj)
    with k k' r'(1) show "ios_track r \<in> ios_track ` set rs" by force
  next
    assume "ios_track r \<in> ios_track ` set rs"
    then obtain r' where r': "r' \<in> set rs" "ios_track r' = ios_track r" by auto
    obtain v where v: "v \<in> set us" "unify_ios L r' = Inr v"
      using list_all2_in_left [OF Cons.hyps(2) r'(1)] by blast
    obtain k' where k': "ios_track r' = Some (Inr k')" "app_id v = ''ios_'' @ str_of_int k'"
      using unify_ios_track [OF v(2)] by blast
    from k k' r'(2) have "app_id u = app_id v" by simp
    then show "app_id u \<in> app_id ` set us" using v(1) by (rule image_eqI)
  qed
  with Cons.IH show ?case by simp
qed

text \<open>
  C3, as amended. In the unified table the \<open>app_id\<close>s are pairwise different exactly when
  the names of the Google Play rows have pairwise different hash residues modulo 1,000,000
  and the iTunes rows have pairwise different converted track ids. Identifiers of
  different platforms never coincide (\<open>gp_\<close> against \<open>ios_\<close>).
\<close>

theorem app_id_unique_iff:
  assumes "create_unified_schema L gp ios = Inr out"
  shows "distinct (map app_id out) \<longleftrightarrow> distinct (map (gp_slot L) gp) \<and> distinct (map ios_track ios)"
proof -
  from assms obtain a b where out: "out = a @ b"
    and a: "list_all2 (\<lambda>r u. unify_gp L r = Inr u) gp a"
    and b: "list_all2 (\<lambda>r u. unify_ios L r = Inr u) ios b"
    by (auto simp: create_unified_schema_Inr_iff)
  have "app_id u \<noteq> app_id v" if uv: "u \<in> set a" "v \<in> set b" for u v
  proof -
    obtain r where "unify_gp L r = Inr u"
      using list_all2_in_right [OF a uv(1)] by blast
    then obtain k where k: "app_id u = ''gp_'' @ str_of_int k"
      using unify_gp_slot by blast
    obtain r' where "unify_ios L r' = Inr v"
      using list_all2_in_right [OF b uv(2)] by blast
    then obtain i where i: "app_id v = ''ios_'' @ str_of_int i"
      using unify_ios_track by blast
    show ?thesis by (simp add: k i)
  qed
  then have "set (map app_id a) \<inter> set (map app_id b) = {}"
    by auto
  then show ?thesis
    by (simp add: out gp_ids_distinct [OF a] ios_ids_distinct [OF b])
qed

lemma named_row_unifies:
  "\<exists>u. unify_gp L (gp_row(''app_name'' \<mapsto> PStr n)) = Inr u
       \<and> app_id u = gp_app_id L (PStr n) \<and> app_name u = n"
  by (simp add: gp_row_def unify_gp_def getitem_def get_default_def ebind_def safe_convert_to_int_def
    safe_convert_to_float_def)

text \<open>
  C3 as stated (the \<open>app_id\<close>s of distinct rows differ) fails whatever the hash function
  is: there are two apps with different names and the same identifier.
\<close>

theorem app_id_collides:
  "\<forall>L. \<exists>n1 n2 out. n1 \<noteq> n2
     \<and> create_unified_schema L [gp_row(''app_name'' \<mapsto> PStr n1), gp_row(''app_name'' \<mapsto> PStr n2)] [] = Inr out
     \<and> map app_name out = [n1, n2]
     \<and> app_id (out ! 0) = app_id (out ! 1)"
proof
  fix L :: pylib
  obtain n1 n2 where ne: "n1 \<noteq> n2"
    and h: "str_hash L n1 mod 1000000 = str_hash L n2 mod 1000000"
    using hash_slot_collision by blast
  obtain u1 where u1: "unify_gp L (gp_row(''app_name'' \<mapsto> PStr n1)) = Inr u1"
    "app_id u1 = gp_app_id L (PStr n1)" "app_name u1 = n1"
    using named_row_unifies by blast
  obtain u2 where u2: "unify_gp L (gp_row(''app_name'' \<mapsto> PStr n2)) = Inr u2"
    "app_id u2 = gp_app_id L (PStr n2)" "app_name u2 = n2"
    using named_row_unifies by blast
  have "create_unified_schema L [gp_row(''app_name'' \<mapsto> PStr n1), gp_row(''app_name'' \<mapsto> PStr n2)] [] = Inr [u1, u2]"
    by (simp add: create_unified_schema_def ebind_def u1 u2)
  moreover have "app_id u1 = app_id u2"
    by (simp add: u1 u2 gp_app_id_eq_iff h)
  ultimately show "\<exists>n1 n2 out. n1 \<noteq> n2
     \<and> create_unified_schema L [gp_row(''app_name'' \<mapsto> PStr n1), gp_row(''app_name'' \<mapsto> PStr n2)] [] = Inr out
     \<and> map app_name out = [n1, n2]
     \<and> app_id (out ! 0) = app_id (out ! 1)"
    using ne u1(3) u2(3) by (intro exI [of _ n1] exI [of _ n2] exI [of _ "[u1, u2]"]) simp
qed

theorem app_id_unique_iff_witness:
  "\<exists>out. create_unified_schema sample_lib [gp_row] [ios_row] = Inr out \<and> distinct (map app_id out)"
proof -
  obtain out where h: "create_unified_schema sample_lib [gp_row] [ios_row] = Inr out"
    using sample_unified by blast
  from app_id_unique_iff [OF h] have "distinct (map app_id out)"
    by (simp add: gp_slot_def ios_track_def)
  with h show ?thesis by blast
qed

section \<open>The deduplicator\<close>

subsection \<open>The sort\<close>

lemma npy_aquicksort_small: "length v \<le> 1 \<Longrightarrow> npy_aquicksort v = [0..<length v]"
  by (cases v) (simp_all add: npy_aquicksort_def aquicksort_segment.simps npy_get_msb.simps insertion_sort_def)

lemma npy_aquicksort_examples:
  "npy_aquicksort [9, 1] = [1, 0]"
  "npy_aquicksort [5, 5] = [0, 1]"
  "npy_aquicksort (replicate 18 9) = [0, 15, 14, 13, 12, 11, 10, 9, 8, 7, 6, 5, 4, 3, 2, 1, 16, 17]"
  by code_simp+

lemma stamps_present: "List.map_filter (\<lambda>x. x) (map Last_Updated_Date df) = map stamp (filter dated df)"
  by (induction df) (auto simp: List.map_filter_simps dated_def stamp_def split: option.splits)

lemma sort_keys_stamps: "sort_keys df = rev (map stamp (filter dated df))"
  by (simp add: sort_keys_def stamps_present)

lemma filter_positions: "map (\<lambda>i. xs ! i) (filter (\<lambda>i. P (xs ! i)) [0..<length xs]) = filter P xs"
proof -
  have "filter P xs = filter P (map (\<lambda>i. xs ! i) [0..<length xs])"
    by (simp add: map_nth)
  also have "\<dots> = map (\<lambda>i. xs ! i) (filter (\<lambda>i. P (xs ! i)) [0..<length xs])"
    by (simp add: filter_map comp_def)
  finally show ?thesis by simp
qed

lemma mset_permuted: "mset p = mset [0..<length xs] \<Longrightarrow> mset (map (\<lambda>k. xs ! k) p) = mset xs"
proof -
  assume "mset p = mset [0..<length xs]"
  then have "mset (map (\<lambda>k. xs ! k) p) = mset (map (\<lambda>k. xs ! k) [0..<length xs])"
    by (metis mset_map)
  then show ?thesis by (simp add: map_nth)
qed

lemma mset_dated_undated: "mset (filter dated df) + mset (filter (\<lambda>r. \<not> dated r) df) = mset df"
  by (induction df) auto

lemma nargsort_unfold:
  "nargsort argsort items =
     (if list_all (\<lambda>k. k < length (rev (filter (\<lambda>i. items ! i \<noteq> None) [0..<length items])))
           (argsort (rev (List.map_filter (\<lambda>x. x) items)))
      then Inr (rev (map (\<lambda>k. rev (filter (\<lambda>i. items ! i \<noteq> None) [0..<length items]) ! k)
                      (argsort (rev (List.map_filter (\<lambda>x. x) items))))
                @ filter (\<lambda>i. items ! i = None) [0..<length items])
      else Inl IndexError)"
  by (simp only: nargsort_def Let_def)

lemma sort_values_latest_first:
  assumes "argsort_result (sort_keys df) (argsort (sort_keys df))"
  shows "\<exists>s. sort_values argsort df = Inr s \<and> latest_first df s"
proof -
  define items where "items = map Last_Updated_Date df"
  define I where "I = filter (\<lambda>i. items ! i \<noteq> None) [0..<length items]"
  define N where "N = filter (\<lambda>i. items ! i = None) [0..<length items]"
  define p where "p = argsort (sort_keys df)"
  let ?D = "filter dated df" and ?U = "filter (\<lambda>r. \<not> dated r) df"
  let ?Dr = "rev ?D"
  define M where "M = map (\<lambda>k. ?Dr ! k) p"
  have I: "I = filter (\<lambda>i. dated (df ! i)) [0..<length df]"
    unfolding I_def items_def by (auto simp: dated_def intro: filter_cong)
  have N: "N = filter (\<lambda>i. \<not> dated (df ! i)) [0..<length df]"
    unfolding N_def items_def by (auto simp: dated_def intro: filter_cong)
  have DI: "map (\<lambda>i. df ! i) I = ?D"
    unfolding I by (rule filter_positions)
  have UN: "map (\<lambda>i. df ! i) N = ?U"
    unfolding N by (rule filter_positions)
  have lenI: "length I = length ?D"
    using DI by (metis length_map)
  have ks: "sort_keys df = map stamp ?Dr"
    by (simp add: sort_keys_stamps rev_map)
  have lenks: "length (sort_keys df) = length ?D"
    by (simp add: ks)
  from assms have perm: "mset p = mset [0..<length ?D]"
    and sorted: "sorted (map (\<lambda>k. sort_keys df ! k) p)"
    by (simp_all add: argsort_result_def lenks p_def)
  from perm have setp: "set p = {0..<length ?D}"
    by (metis atLeastLessThan_upt set_mset_mset)
  have inrange: "list_all (\<lambda>k. k < length (rev I)) p"
    using setp by (simp add: list_all_iff lenI)
  have rows: "map (\<lambda>i. df ! i) (map (\<lambda>k. rev I ! k) p) = M"
  proof -
    have "df ! (rev I ! k) = ?Dr ! k" if "k \<in> set p" for k
    proof -
      from that setp have k: "k < length (rev I)" by (simp add: lenI)
      have "?Dr = map (\<lambda>i. df ! i) (rev I)" by (simp add: DI [symmetric] rev_map)
      with k show ?thesis by simp
    qed
    then show ?thesis by (simp add: M_def)
  qed
  define s where "s = rev M @ ?U"
  have keys: "rev (List.map_filter (\<lambda>x. x) items) = sort_keys df"
    by (simp add: sort_keys_def items_def)
  have "nargsort argsort items = Inr (rev (map (\<lambda>k. rev I ! k) p) @ N)"
    unfolding nargsort_unfold keys I_def [symmetric] N_def [symmetric] p_def [symmetric]
    using inrange by simp
  moreover have "map (\<lambda>i. df ! i) (rev (map (\<lambda>k. rev I ! k) p) @ N) = s"
    unfolding s_def map_append rev_map [symmetric] rows UN ..
  ultimately have sv: "sort_values argsort df = Inr s"
    by (simp add: sort_values_def items_def [symmetric] ebind_def)
  have msetM: "mset M = mset ?D"
    using mset_permuted [of p ?Dr] perm by (simp add: M_def)
  then have setM: "set M = set ?D" by (metis set_mset_mset)
  have mset_s: "mset s = mset df"
    using msetM mset_dated_undated [of df] by (simp add: s_def)
  have fM: "filter dated (rev M) = rev M"
    using setM by (simp add: filter_id_conv)
  have fU: "filter dated ?U = []"
    by (simp add: filter_empty_conv)
  have dated_s: "filter dated s = rev M"
    by (simp only: s_def filter_append fM fU append_Nil2)
  have stampM: "map stamp M = map (\<lambda>k. sort_keys df ! k) p"
  proof -
    have "stamp (?Dr ! k) = sort_keys df ! k" if "k \<in> set p" for k
      using that setp by (simp add: ks)
    then show ?thesis by (simp add: M_def)
  qed
  have "sorted (map stamp M)"
    using sorted by (simp only: stampM)
  then have "sorted_wrt (\<lambda>a b. stamp a \<le> stamp b) M"
    by (simp only: sorted_map)
  then have srt: "sorted_wrt (\<lambda>a b. stamp b \<le> stamp a) (rev M)"
    by (simp only: sorted_wrt_rev)
  have "latest_first df s"
    unfolding latest_first_def dated_s using mset_s srt by (simp add: s_def)
  with sv show ?thesis by blast
qed

subsection \<open>The rows kept\<close>

lemma keep_first_subset: "set (keep_first key seen xs) \<subseteq> set xs"
  by (induction xs arbitrary: seen) auto

lemma keep_first_keys: "key ` set (keep_first key seen xs) = key ` set xs - set seen"
  by (induction xs arbitrary: seen) auto

lemma keep_first_distinct: "distinct (map key (keep_first key seen xs))"
proof (induction xs arbitrary: seen)
  case Nil
  then show ?case by simp
next
  case (Cons x xs)
  have "key x \<notin> key ` set (keep_first key (key x # seen) xs)"
    by (simp add: keep_first_keys)
  with Cons.IH show ?case by simp
qed

lemma keep_first_is_first:
  "r \<in> set (keep_first key seen xs) \<Longrightarrow> find (\<lambda>x. key x = key r) xs = Some r"
proof (induction xs arbitrary: seen)
  case Nil
  then show ?case by simp
next
  case (Cons x xs)
  show ?case
  proof (cases "key x \<in> set seen")
    case True
    with Cons.prems have r: "r \<in> set (keep_first key seen xs)" by simp
    then have "key r \<in> key ` set xs - set seen"
      using keep_first_keys [of key seen xs] by blast
    with True have "key x \<noteq> key r" by auto
    with Cons.IH [OF r] show ?thesis by simp
  next
    case False
    with Cons.prems consider "r = x" | "r \<in> set (keep_first key (key x # seen) xs)" by auto
    then show ?thesis
    proof cases
      case 1
      then show ?thesis by simp
    next
      case 2
      then have "key r \<in> key ` set xs - set (key x # seen)"
        using keep_first_keys [of key "key x # seen" xs] by blast
      then have "key x \<noteq> key r" by auto
      with Cons.IH [OF 2] show ?thesis by simp
    qed
  qed
qed

lemma find_Some_split:
  "find P xs = Some r \<Longrightarrow> \<exists>pre post. xs = pre @ r # post \<and> P r \<and> (\<forall>x\<in>set pre. \<not> P x)"
proof (induction xs)
  case Nil
  then show ?case by simp
next
  case (Cons x xs)
  show ?case
  proof (cases "P x")
    case True
    with Cons.prems have "x = r" by simp
    with True show ?thesis by (intro exI [of _ "[]"] exI [of _ xs]) simp
  next
    case False
    with Cons.prems have "find P xs = Some r" by simp
    from Cons.IH [OF this] obtain pre post where "xs = pre @ r # post" "P r" "\<forall>x\<in>set pre. \<not> P x"
      by blast
    with False show ?thesis by (intro exI [of _ "x # pre"] exI [of _ post]) simp
  qed
qed

lemma find_None_append: "find P xs = None \<Longrightarrow> find P (xs @ ys) = find P ys"
  by (induction xs) (auto split: if_splits)

lemma find_Some_append: "find P xs = Some r \<Longrightarrow> find P (xs @ ys) = Some r"
  by (induction xs) (auto split: if_splits)

lemma find_filter_same:
  "(\<And>x. x \<in> set xs \<Longrightarrow> P x \<Longrightarrow> Q x) \<Longrightarrow> find P (filter Q xs) = find P xs"
  by (induction xs) auto

lemma dated_stamp: "dated r \<Longrightarrow> Last_Updated_Date r = Some (stamp r)"
  by (auto simp: dated_def stamp_def)

lemma remove_duplicates_Inr:
  assumes "remove_duplicates argsort df = Inr (out, n)"
  shows "\<exists>s. sort_values argsort df = Inr s \<and> out = keep_first (\<lambda>r. r ''App'') [] s"
    and "n = int (length df) - int (length out)"
  using assms by (auto simp: remove_duplicates_def drop_duplicates_def ebind_Inr_iff)

lemma latest_kept:
  assumes srt: "latest_first df s"
    and first: "find (\<lambda>x. key x = key r) s = Some r"
    and r': "r' \<in> set df" "key r' = key r"
  shows "Last_Updated_Date r' = None
       \<or> (\<exists>t t'. Last_Updated_Date r = Some t \<and> Last_Updated_Date r' = Some t' \<and> t' \<le> t)"
proof (cases "dated r'")
  case False
  then show ?thesis by (simp add: dated_def)
next
  case True
  let ?P = "\<lambda>x. key x = key r"
  let ?D = "filter dated s" and ?U = "filter (\<lambda>r. \<not> dated r) df"
  from srt have s: "s = ?D @ ?U" and sorted: "sorted_wrt (\<lambda>a b. stamp b \<le> stamp a) ?D"
    and "mset s = mset df"
    by (simp_all add: latest_first_def)
  then have "set s = set df" by (metis set_mset_mset)
  with r' True have r'D: "r' \<in> set ?D" by simp
  have "find ?P ?D \<noteq> None"
    using r'D r'(2) by (auto simp: find_None_iff)
  then obtain x where x: "find ?P ?D = Some x" by blast
  from find_Some_append [OF x, of ?U] s first have "x = r" by simp
  with x obtain pre post where D: "?D = pre @ r # post" and pre: "\<forall>x\<in>set pre. \<not> ?P x"
    using find_Some_split [of ?P ?D r] by blast
  from r'D r'(2) pre D have "r' = r \<or> r' \<in> set post"
    by (metis Un_iff set_ConsD set_append)
  moreover from sorted D have "\<forall>y\<in>set post. stamp y \<le> stamp r"
    by (simp add: sorted_wrt_append)
  ultimately have le: "stamp r' \<le> stamp r" by auto
  have "r \<in> set ?D" using D by (metis in_set_conv_decomp)
  then have "dated r" by simp
  with True le show ?thesis by (auto simp: dated_stamp)
qed

lemma undated_first_in_input:
  assumes srt: "latest_first df s"
    and first: "find (\<lambda>x. key x = key r) s = Some r"
    and und: "Last_Updated_Date r = None"
  shows "find (\<lambda>x. key x = key r) df = Some r"
proof -
  let ?P = "\<lambda>x. key x = key r"
  let ?D = "filter dated s" and ?U = "filter (\<lambda>r. \<not> dated r) df"
  from srt have s: "s = ?D @ ?U" and "mset s = mset df"
    by (simp_all add: latest_first_def)
  then have sets: "set s = set df" by (metis set_mset_mset)
  have none: "find ?P ?D = None"
  proof (rule ccontr)
    assume "find ?P ?D \<noteq> None"
    then obtain x where x: "find ?P ?D = Some x" by blast
    from find_Some_append [OF x, of ?U] s first have "x = r" by simp
    with x have "r \<in> set ?D" by (metis find_Some_split in_set_conv_decomp)
    with und show False by (simp add: dated_def)
  qed
  from find_None_append [OF none, of ?U] s first have U: "find ?P ?U = Some r" by simp
  have "\<not> dated x" if "x \<in> set df" "?P x" for x
  proof
    assume "dated x"
    with that sets have "x \<in> set ?D" by simp
    with none that(2) show False by (auto simp: find_None_iff)
  qed
  then have "find ?P ?U = find ?P df"
    by (intro find_filter_same) blast
  with U show ?thesis by simp
qed


text \<open>
  C2, as amended. Whenever numpy's \<open>argsort\<close> returns an order that sorts the timestamps,
  deduplication keeps exactly one row for each app key, a row of the input whose timestamp
  is the latest of its key (a missing timestamp counts as earlier than every date); the
  sorted table holds the dated rows latest first and after them the rows with a missing
  timestamp in their original order; when every timestamp of a key is missing, the row
  that comes first in the input is kept; and the count of removed duplicates is the input
  row count minus the output row count. Which of several rows sharing the latest
  timestamp is kept depends on the sort, which is not stable.
\<close>

theorem dedup_keeps_latest:
  assumes srt: "argsort_result (sort_keys df) (argsort (sort_keys df))"
    and rd: "remove_duplicates argsort df = Inr (out, n)"
  shows "n = int (length df) - int (length out)
       \<and> distinct (map (\<lambda>r. r ''App'') out)
       \<and> (\<lambda>r. r ''App'') ` set out = (\<lambda>r. r ''App'') ` set df
       \<and> set out \<subseteq> set df
       \<and> (\<forall>r\<in>set out. \<forall>r'\<in>set df. r' ''App'' = r ''App'' \<longrightarrow>
             Last_Updated_Date r' = None
             \<or> (\<exists>t t'. Last_Updated_Date r = Some t \<and> Last_Updated_Date r' = Some t' \<and> t' \<le> t))
       \<and> (\<forall>r\<in>set out. Last_Updated_Date r = None \<longrightarrow>
             find (\<lambda>x. x ''App'' = r ''App'') df = Some r)
       \<and> (\<exists>d. sort_values argsort df = Inr (d @ filter (\<lambda>r. \<not> dated r) df)
              \<and> (\<forall>x\<in>set d. dated x) \<and> sorted_wrt (\<lambda>a b. stamp b \<le> stamp a) d)"
proof -
  let ?key = "\<lambda>r::row. r ''App''"
  from remove_duplicates_Inr [OF rd] obtain s
    where sv: "sort_values argsort df = Inr s" and out: "out = keep_first ?key [] s"
      and n: "n = int (length df) - int (length out)"
    by blast
  from sort_values_latest_first [of df argsort] srt sv have lf: "latest_first df s"
    by auto
  then have "mset s = mset df" by (simp add: latest_first_def)
  then have sets: "set s = set df" by (metis set_mset_mset)
  have c2: "distinct (map ?key out)"
    unfolding out by (rule keep_first_distinct)
  have c3: "?key ` set out = ?key ` set df"
    unfolding out by (simp add: keep_first_keys sets)
  have c4: "set out \<subseteq> set df"
    unfolding out using keep_first_subset [of ?key "[]" s] sets by simp
  have first: "find (\<lambda>x. ?key x = ?key r) s = Some r" if "r \<in> set out" for r
    using that unfolding out by (rule keep_first_is_first)
  have c5: "\<forall>r\<in>set out. \<forall>r'\<in>set df. r' ''App'' = r ''App'' \<longrightarrow>
             Last_Updated_Date r' = None
             \<or> (\<exists>t t'. Last_Updated_Date r = Some t \<and> Last_Updated_Date r' = Some t' \<and> t' \<le> t)"
  proof (intro ballI impI)
    fix r r' assume r: "r \<in> set out" and r': "r' \<in> set df" "r' ''App'' = r ''App''"
    from latest_kept [of df s ?key r r', OF lf] first [OF r] r'
    show "Last_Updated_Date r' = None
             \<or> (\<exists>t t'. Last_Updated_Date r = Some t \<and> Last_Updated_Date r' = Some t' \<and> t' \<le> t)"
      by simp
  qed
  have c6: "\<forall>r\<in>set out. Last_Updated_Date r = None \<longrightarrow> find (\<lambda>x. x ''App'' = r ''App'') df = Some r"
  proof (intro ballI impI)
    fix r assume r: "r \<in> set out" and und: "Last_Updated_Date r = None"
    from undated_first_in_input [of df s ?key r, OF lf] first [OF r] und
    show "find (\<lambda>x. x ''App'' = r ''App'') df = Some r"
      by simp
  qed
  have c7: "\<exists>d. sort_values argsort df = Inr (d @ filter (\<lambda>r. \<not> dated r) df)
              \<and> (\<forall>x\<in>set d. dated x) \<and> sorted_wrt (\<lambda>a b. stamp b \<le> stamp a) d"
  proof -
    from lf have "s = filter dated s @ filter (\<lambda>r. \<not> dated r) df"
      and "sorted_wrt (\<lambda>a b. stamp b \<le> stamp a) (filter dated s)"
      by (simp_all add: latest_first_def)
    with sv show ?thesis
      by (intro exI [of _ "filter dated s"]) simp
  qed
  show ?thesis using n c2 c3 c4 c5 c6 c7 by blast
qed

lemma tied_table_sorted:
  "map_sum id (\<lambda>dd. (map (\<lambda>r. r ''Rating'') (fst dd), snd dd)) (remove_duplicates npy_aquicksort tied_table)
   = Inr ([Some (PInt 0), Some (PInt 1), Some (PInt 16), Some (PInt 15), Some (PInt 14), Some (PInt 13), Some (PInt 12), Some (PInt 11), Some (PInt 10), Some (PInt 9), Some (PInt 8), Some (PInt 7), Some (PInt 6), Some (PInt 5), Some (PInt 4), Some (PInt 3), Some (PInt 17)], 1)"
  by code_simp

lemma sample_rows_dated:
  "dated dup_row_old" "dated dup_row_new" "\<not> dated undated_row"
  "stamp dup_row_old = 1" "stamp dup_row_new = 9"
  "Last_Updated_Date dup_row_old = Some 1" "Last_Updated_Date dup_row_new = Some 9"
  "Last_Updated_Date undated_row = None"
  by (simp_all add: dated_def stamp_def Last_Updated_Date_def dup_row_old_def dup_row_new_def
      undated_row_def)

lemma sample_rows_cells:
  "dup_row_old ''App'' = Some (PStr ''Notes'')" "dup_row_new ''App'' = Some (PStr ''Notes'')"
  "undated_row ''App'' = Some (PStr ''Maps'')"
  "dup_row_old ''Last_Updated_Date'' = Some (PTime 1)" "dup_row_new ''Last_Updated_Date'' = Some (PTime 9)"
  "undated_row ''Last_Updated_Date'' = Some PNone"
  by (simp_all add: dup_row_old_def dup_row_new_def undated_row_def)

theorem dedup_keeps_latest_witness:
  "argsort_result (sort_keys [dup_row_old, dup_row_new, undated_row])
     (npy_aquicksort (sort_keys [dup_row_old, dup_row_new, undated_row]))
   \<and> remove_duplicates npy_aquicksort [dup_row_old, dup_row_new, undated_row]
       = Inr ([dup_row_new, undated_row], 1)
   \<and> distinct (map (\<lambda>r. r ''App'') [dup_row_new, undated_row])
   \<and> set [dup_row_new, undated_row] \<subseteq> set [dup_row_old, dup_row_new, undated_row]
   \<and> find (\<lambda>x. x ''App'' = undated_row ''App'') [dup_row_old, dup_row_new, undated_row] = Some undated_row
   \<and> sort_values npy_aquicksort [dup_row_old, dup_row_new, undated_row]
       = Inr [dup_row_new, dup_row_old, undated_row]"
proof -
  have keys: "sort_keys [dup_row_old, dup_row_new, undated_row] = [9, 1]"
    by (simp add: sort_keys_stamps sample_rows_dated)
  have order: "npy_aquicksort [9, 1] = [1, 0]"
    by (rule npy_aquicksort_examples)
  have srt: "argsort_result (sort_keys [dup_row_old, dup_row_new, undated_row])
     (npy_aquicksort (sort_keys [dup_row_old, dup_row_new, undated_row]))"
    by (simp add: keys order argsort_result_def)
  have sv: "sort_values npy_aquicksort [dup_row_old, dup_row_new, undated_row]
       = Inr [dup_row_new, dup_row_old, undated_row]"
    by (simp add: sort_values_def nargsort_unfold List.map_filter_simps sample_rows_dated order ebind_def)
  have rd: "remove_duplicates npy_aquicksort [dup_row_old, dup_row_new, undated_row]
       = Inr ([dup_row_new, undated_row], 1)"
    by (simp add: remove_duplicates_def sv drop_duplicates_def getitem_def ebind_def sample_rows_cells)
  from dedup_keeps_latest [OF srt rd] sample_rows_dated(8)
  have "distinct (map (\<lambda>r. r ''App'') [dup_row_new, undated_row])
   \<and> set [dup_row_new, undated_row] \<subseteq> set [dup_row_old, dup_row_new, undated_row]
   \<and> find (\<lambda>x. x ''App'' = undated_row ''App'') [dup_row_old, dup_row_new, undated_row] = Some undated_row"
    by simp
  with srt rd sv show ?thesis by simp
qed

lemma tied_keys: "sort_keys tied_table = replicate 18 9"
  by code_simp

lemma tied_order_sorts:
  "argsort_result (replicate 18 9) [0, 15, 14, 13, 12, 11, 10, 9, 8, 7, 6, 5, 4, 3, 2, 1, 16, 17]"
  by code_simp

text \<open>
  C2 as stated (among rows of equal timestamp the first of the input is kept, the sort
  being stable) fails. \<open>sort_values\<close> runs with the default \<open>kind='quicksort'\<close>: on the
  eighteen rows of equal timestamp numpy partitions the reversed array, and pandas'
  sorted table holds the rows 0, 1, 16, 15, ..., 3, 2, 17 of the input. Rows 2 and 3 are
  the same app; row 3 is kept and row 2, the first in input order, is dropped.
\<close>

theorem dedup_tie_keeps_later_row:
  "argsort_result (sort_keys tied_table) (npy_aquicksort (sort_keys tied_table))
   \<and> map (\<lambda>r. r ''App'') [tied_table ! 2, tied_table ! 3] = [Some (PStr ''Notes''), Some (PStr ''Notes'')]
   \<and> map Last_Updated_Date [tied_table ! 2, tied_table ! 3] = [Some 9, Some 9]
   \<and> map (\<lambda>r. r ''Rating'') [tied_table ! 2, tied_table ! 3] = [Some (PInt 2), Some (PInt 3)]
   \<and> map_sum id (\<lambda>dd. (map (\<lambda>r. r ''Rating'') (fst dd), snd dd))
        (remove_duplicates npy_aquicksort tied_table)
      = Inr ([Some (PInt 0), Some (PInt 1), Some (PInt 16), Some (PInt 15), Some (PInt 14), Some (PInt 13), Some (PInt 12), Some (PInt 11), Some (PInt 10), Some (PInt 9), Some (PInt 8), Some (PInt 7), Some (PInt 6), Some (PInt 5), Some (PInt 4), Some (PInt 3), Some (PInt 17)], 1)"
proof -
  have "argsort_result (sort_keys tied_table) (npy_aquicksort (sort_keys tied_table))"
    by (simp only: tied_keys npy_aquicksort_examples tied_order_sorts)
  moreover have "map (\<lambda>r. r ''App'') [tied_table ! 2, tied_table ! 3] = [Some (PStr ''Notes''), Some (PStr ''Notes'')]"
    "map Last_Updated_Date [tied_table ! 2, tied_table ! 3] = [Some 9, Some 9]"
    "map (\<lambda>r. r ''Rating'') [tied_table ! 2, tied_table ! 3] = [Some (PInt 2), Some (PInt 3)]"
    by (simp_all add: tied_table_def tied_row_def Last_Updated_Date_def)
  ultimately show ?thesis
    using tied_table_sorted by simp
qed

section \<open>End to end\<close>

lemma apply_column_single:
  "apply_column src dst f [r] = Inr df \<longleftrightarrow>
     (\<exists>v w. r src = Some v \<and> f v = Inr w \<and> df = [r(dst \<mapsto> w)])"
  by (auto simp: apply_column_def ebind_Inr_iff getitem_Inr_iff)

lemma emap_single: "emap f [x] = Inr ys \<longleftrightarrow> (\<exists>y. f x = Inr y \<and> ys = [y])"
  by (auto simp: ebind_Inr_iff)

lemma clean_columns_single:
  assumes "clean_reviews_column L [a] = Inr df1" "clean_size_column L df1 = Inr df2"
    "clean_installs_column L df2 = Inr df3" "clean_price_column L df3 = Inr df4"
    "clean_date_column L df4 = Inr df5"
  shows "\<exists>c. df5 = [c]
     \<and> c ''App'' = a ''App'' \<and> c ''Category'' = a ''Category'' \<and> c ''Type'' = a ''Type''
     \<and> c ''Rating'' = a ''Rating''
     \<and> (\<exists>v w. a ''Reviews'' = Some v \<and> convert_reviews L v = Inr w \<and> c ''Reviews_Numeric'' = Some w)
     \<and> (\<exists>v w. c ''Price'' = Some v \<and> convert_price L v = Inr w \<and> c ''Price_USD'' = Some w)
     \<and> (c ''Price'' = a ''Price'')"
  using assms
  by (auto simp: clean_reviews_column_def clean_size_column_def clean_installs_column_def
      clean_price_column_def clean_date_column_def apply_column_single)

lemma argsort_small_result:
  assumes "\<forall>v. length v \<le> 1 \<longrightarrow> argsort v = [0..<length v]" and "length v \<le> 1"
  shows "argsort_result v (argsort v)"
proof -
  from assms have "argsort v = [0..<length v]" by simp
  moreover from assms(2) have "sorted (map (\<lambda>k. v ! k) [0..<length v])"
    by (cases v) simp_all
  ultimately show ?thesis by (simp add: argsort_result_def)
qed

lemma remove_duplicates_single:
  assumes small: "\<forall>v. length v \<le> 1 \<longrightarrow> argsort v = [0..<length v]"
    and rd: "remove_duplicates argsort [c] = Inr dd"
  shows "dd = ([c], 0)"
proof -
  have "length (sort_keys [c]) \<le> 1"
    by (simp add: sort_keys_stamps)
  from argsort_small_result [OF small this]
  obtain s where sv: "sort_values argsort [c] = Inr s" and lf: "latest_first [c] s"
    using sort_values_latest_first [of "[c]" argsort] by blast
  from lf have "mset s = {#c#}" by (simp add: latest_first_def)
  then have "s = [c]"
    by (cases s) (auto simp: add_mset_eq_single)
  with rd sv show ?thesis
    by (auto simp: remove_duplicates_def drop_duplicates_def ebind_Inr_iff)
qed

lemma ingestion_unified_row_cells:
  assumes "ingestion_unified_row c = Inr g"
  shows "g ''category'' = c ''Category''" "g ''app_type'' = c ''Type''" "g ''rating'' = c ''Rating''"
    "g ''review_count'' = c ''Reviews_Numeric''" "g ''price_usd'' = c ''Price_USD''"
    "g ''app_name'' = c ''App''"
  using assms
  by (auto simp: ingestion_unified_row_def ebind_Inr_iff getitem_Inr_iff)

lemma pipeline_single:
  assumes one: "\<forall>v. length v \<le> 1 \<longrightarrow> argsort v = [0..<length v]"
    and run: "ingestion_execute_pipeline L argsort [a] = Inr cleaned"
  shows "\<exists>g. cleaned = [g]
     \<and> g ''category'' = a ''Category'' \<and> g ''app_type'' = a ''Type'' \<and> g ''rating'' = a ''Rating''
     \<and> g ''app_name'' = a ''App''
     \<and> (\<exists>v w. a ''Reviews'' = Some v \<and> convert_reviews L v = Inr w \<and> g ''review_count'' = Some w)
     \<and> (\<exists>v w. a ''Price'' = Some v \<and> convert_price L v = Inr w \<and> g ''price_usd'' = Some w)"
proof -
  from run obtain df1 df2 df3 df4 df5 dd where
    steps: "clean_reviews_column L [a] = Inr df1" "clean_size_column L df1 = Inr df2"
      "clean_installs_column L df2 = Inr df3" "clean_price_column L df3 = Inr df4"
      "clean_date_column L df4 = Inr df5"
    and dd: "remove_duplicates argsort df5 = Inr dd"
    and fin: "ingestion_create_unified_schema (fst dd) = Inr cleaned"
    by (auto simp: ingestion_execute_pipeline_def ebind_Inr_iff)
  from clean_columns_single [OF steps] obtain c where c: "df5 = [c]"
    "c ''App'' = a ''App''" "c ''Category'' = a ''Category''" "c ''Type'' = a ''Type''"
    "c ''Rating'' = a ''Rating''"
    "\<exists>v w. a ''Reviews'' = Some v \<and> convert_reviews L v = Inr w \<and> c ''Reviews_Numeric'' = Some w"
    "\<exists>v w. c ''Price'' = Some v \<and> convert_price L v = Inr w \<and> c ''Price_USD'' = Some w"
    "c ''Price'' = a ''Price''"
    by blast
  from remove_duplicates_single [of argsort c dd] one dd c(1) have "fst dd = [c]" by simp
  with fin obtain g where g: "ingestion_unified_row c = Inr g" "cleaned = [g]"
    by (auto simp: ingestion_create_unified_schema_def ebind_Inr_iff)
  show ?thesis
    using c(2-8) g(2) ingestion_unified_row_cells [OF g(1)]
    by (intro exI [of _ g]) simp
qed

lemma convert_reviews_2_3M: "convert_reviews L (PStr ''2.3M'') = Inr (PFloat (Fin 2300000))"
  by (simp add: convert_reviews_def parse_defs)

lemma convert_price_0: "convert_price L (PStr ''0'') = Inr (PFloat (Fin 0))"
  by (simp add: convert_price_def parse_defs)

lemma safe_convert_to_float_number:
  "safe_convert_to_float (PFloat (Fin q)) = Fin q" "safe_convert_to_float (PInt i) = Fin (of_int i)"
  by (simp_all add: safe_convert_to_float_def)

lemma map_category_game:
  "map_category (PStr ''GAME'') = PStr ''Games''" "map_category (PStr ''Games'') = PStr ''Games''"
  by (simp_all add: map_category_def category_mapping_def)

lemma ios_size_mb_positive: "0 < q \<Longrightarrow> ios_size_mb (Fin q) = PFloat (Fin (q / 1048576))"
  by simp

text \<open>
  C8, as amended. For every iTunes row the unified \<open>app_type\<close> is derived from the price:
  \<open>Free\<close> when the coerced price equals 0 and \<open>Paid\<close> otherwise, and \<open>size_mb\<close> is
  \<open>fileSizeBytes\<close> divided by 1,048,576 when that is positive. For a Google Play row
  \<open>app_type\<close> is the \<open>app_type\<close> cell printed as text, which through Phase 1 is the \<open>Type\<close>
  cell of the raw row; it is not derived from the price. So one Android row with category
  \<open>GAME\<close>, reviews \<open>2.3M\<close>, price \<open>0\<close> and type \<open>Free\<close>, and one iOS row with genre
  \<open>Games\<close>, rating 4.5 and price 0, unify to two rows, both with \<open>unified_category\<close>
  \<open>Games\<close> and \<open>app_type\<close> \<open>Free\<close>, whenever the two phases return.
\<close>

theorem end_to_end_free_games:
  "(unify_ios L r = Inr u \<longrightarrow>
      (\<exists>p b. r ''price'' = Some p \<and> r ''fileSizeBytes'' = Some b
         \<and> app_type u = (if safe_convert_to_float p = Fin 0 then ''Free'' else ''Paid'')
         \<and> (\<forall>q. safe_convert_to_float b = Fin q \<and> 0 < q \<longrightarrow> size_mb u = PFloat (Fin (q / 1048576)))))
   \<and> (unify_gp L g = Inr w \<longrightarrow> (\<exists>t. g ''app_type'' = Some t \<and> app_type w = py_str L t))
   \<and> ((\<forall>v. length v \<le> 1 \<longrightarrow> argsort v = [0..<length v])
       \<and> ingestion_execute_pipeline L argsort [a] = Inr cleaned
       \<and> create_unified_schema L cleaned rows = Inr unified
      \<longrightarrow> (\<exists>t. a ''Type'' = Some t \<and> platform (unified ! 0) = ''Android''
             \<and> app_type (unified ! 0) = py_str L t))
   \<and> ((\<forall>v. length v \<le> 1 \<longrightarrow> argsort v = [0..<length v])
       \<and> ingestion_execute_pipeline L argsort [a] = Inr cleaned
       \<and> create_unified_schema L cleaned [i] = Inr out
       \<and> a ''Category'' = Some (PStr ''GAME'') \<and> a ''Reviews'' = Some (PStr ''2.3M'')
       \<and> a ''Price'' = Some (PStr ''0'') \<and> a ''Type'' = Some (PStr ''Free'')
       \<and> i ''primaryGenreName'' = Some (PStr ''Games'')
       \<and> i ''averageUserRating'' = Some (PFloat (Fin (9 / 2)))
       \<and> (i ''price'' = Some (PInt 0) \<or> i ''price'' = Some (PFloat (Fin 0)))
      \<longrightarrow> map platform out = [''Android'', ''iOS'']
        \<and> map unified_category out = [PStr ''Games'', PStr ''Games'']
        \<and> map app_type out = [''Free'', ''Free'']
        \<and> review_count (out ! 0) = PFloat (Fin 2300000) \<and> price_usd (out ! 0) = Fin 0
        \<and> rating (out ! 1) = Fin (9 / 2) \<and> price_usd (out ! 1) = Fin 0)"
proof (intro conjI impI)
  assume "unify_ios L r = Inr u"
  from unify_ios_fields(7,8) [OF this]
  show "\<exists>p b. r ''price'' = Some p \<and> r ''fileSizeBytes'' = Some b
         \<and> app_type u = (if safe_convert_to_float p = Fin 0 then ''Free'' else ''Paid'')
         \<and> (\<forall>q. safe_convert_to_float b = Fin q \<and> 0 < q \<longrightarrow> size_mb u = PFloat (Fin (q / 1048576)))"
    by auto
next
  assume "unify_gp L g = Inr w"
  then show "\<exists>t. g ''app_type'' = Some t \<and> app_type w = py_str L t"
    by (rule unify_gp_fields(6))
next
  assume h: "(\<forall>v. length v \<le> 1 \<longrightarrow> argsort v = [0..<length v])
       \<and> ingestion_execute_pipeline L argsort [a] = Inr cleaned
       \<and> create_unified_schema L cleaned rows = Inr unified"
  then obtain c where c: "cleaned = [c]" "c ''app_type'' = a ''Type''"
    using pipeline_single [of argsort L a cleaned] by auto
  from h c(1) obtain ua rest where out: "unified = ua # rest" and ua: "unify_gp L c = Inr ua"
    by (auto simp: create_unified_schema_Inr_iff list_all2_Cons1)
  from unify_gp_fields(1,6) [OF ua] c(2) out
  show "\<exists>t. a ''Type'' = Some t \<and> platform (unified ! 0) = ''Android''
             \<and> app_type (unified ! 0) = py_str L t"
    by auto
next
  assume h: "(\<forall>v. length v \<le> 1 \<longrightarrow> argsort v = [0..<length v])
       \<and> ingestion_execute_pipeline L argsort [a] = Inr cleaned
       \<and> create_unified_schema L cleaned [i] = Inr out
       \<and> a ''Category'' = Some (PStr ''GAME'') \<and> a ''Reviews'' = Some (PStr ''2.3M'')
       \<and> a ''Price'' = Some (PStr ''0'') \<and> a ''Type'' = Some (PStr ''Free'')
       \<and> i ''primaryGenreName'' = Some (PStr ''Games'')
       \<and> i ''averageUserRating'' = Some (PFloat (Fin (9 / 2)))
       \<and> (i ''price'' = Some (PInt 0) \<or> i ''price'' = Some (PFloat (Fin 0)))"
  then obtain c where g: "cleaned = [c]" "c ''category'' = Some (PStr ''GAME'')"
    "c ''app_type'' = Some (PStr ''Free'')"
    "c ''review_count'' = Some (PFloat (Fin 2300000))" "c ''price_usd'' = Some (PFloat (Fin 0))"
    using pipeline_single [of argsort L a cleaned]
    by (auto simp: convert_reviews_2_3M convert_price_0)
  from h g(1) obtain ua ui where out: "out = [ua, ui]"
    and ua: "unify_gp L c = Inr ua" and ui: "unify_ios L i = Inr ui"
    by (auto simp: create_unified_schema_Inr_iff list_all2_Cons1)
  have oa: "original_category ua = PStr ''GAME''"
    using unify_gp_fields(3) [OF ua] g(2) by simp
  have a1: "platform ua = ''Android''" "unified_category ua = PStr ''Games''" "app_type ua = ''Free''"
    "review_count ua = PFloat (Fin 2300000)" "price_usd ua = Fin 0"
    using unify_gp_fields(1,4,6,7,8) [OF ua] g(3-5) oa
    by (auto simp: map_category_game safe_convert_to_float_number)
  have oi: "original_category ui = PStr ''Games''"
    using unify_ios_fields(4) [OF ui] h by auto
  have i1: "platform ui = ''iOS''" "unified_category ui = PStr ''Games''" "app_type ui = ''Free''"
    "rating ui = Fin (9 / 2)" "price_usd ui = Fin 0"
    using unify_ios_fields(1,5,7,9) [OF ui] h oi
    by (auto simp: map_category_game safe_convert_to_float_number)
  show "map platform out = [''Android'', ''iOS'']" "map unified_category out = [PStr ''Games'', PStr ''Games'']"
    "map app_type out = [''Free'', ''Free'']" "review_count (out ! 0) = PFloat (Fin 2300000)"
    "price_usd (out ! 0) = Fin 0" "rating (out ! 1) = Fin (9 / 2)" "price_usd (out ! 1) = Fin 0"
    by (simp_all add: out a1 i1)
qed

lemmas pipeline_eval =
  ingestion_execute_pipeline_def clean_reviews_column_def clean_size_column_def
  clean_installs_column_def clean_price_column_def clean_date_column_def apply_column_def
  remove_duplicates_def sort_values_def nargsort_unfold List.map_filter_simps Last_Updated_Date_def
  npy_aquicksort_small drop_duplicates_def validate_data_quality_def
  ingestion_create_unified_schema_def ingestion_unified_row_def
  convert_reviews_def convert_size_def convert_installs_def convert_price_def convert_date_def
  create_unified_schema_def sample_lib_def

lemma android_row_end_to_end:
  "\<exists>out. ebind (ingestion_execute_pipeline sample_lib npy_aquicksort [android_row])
           (\<lambda>cleaned. create_unified_schema sample_lib cleaned [ios_row]) = Inr out"
  by (simp add: android_row_def ios_row_def pipeline_eval unify_eval parse_defs)

text \<open>
  C8 as stated fixes the Android row by its category, reviews and price only. With these
  and an empty \<open>Type\<close> cell the unified \<open>app_type\<close> of the Android row is \<open>nan\<close>, not
  \<open>Free\<close>.
\<close>

theorem untyped_android_row_not_free:
  "android_row_no_type ''Category'' = Some (PStr ''GAME'')
   \<and> android_row_no_type ''Reviews'' = Some (PStr ''2.3M'')
   \<and> android_row_no_type ''Price'' = Some (PStr ''0'')
   \<and> ios_row ''primaryGenreName'' = Some (PStr ''Games'')
   \<and> ios_row ''averageUserRating'' = Some (PFloat (Fin (9 / 2)))
   \<and> ios_row ''price'' = Some (PInt 0)
   \<and> map_sum id (map app_type)
        (ebind (ingestion_execute_pipeline sample_lib npy_aquicksort [android_row_no_type])
           (\<lambda>cleaned. create_unified_schema sample_lib cleaned [ios_row]))
       = Inr [''nan'', ''Free'']"
  by (simp add: android_row_no_type_def android_row_def ios_row_def pipeline_eval unify_eval parse_defs)

theorem end_to_end_free_games_witness:
  "\<exists>cleaned out. ingestion_execute_pipeline sample_lib npy_aquicksort [android_row] = Inr cleaned
     \<and> create_unified_schema sample_lib cleaned [ios_row] = Inr out
     \<and> map platform out = [''Android'', ''iOS'']
     \<and> map unified_category out = [PStr ''Games'', PStr ''Games'']
     \<and> map app_type out = [''Free'', ''Free'']
     \<and> review_count (out ! 0) = PFloat (Fin 2300000)
     \<and> size_mb (out ! 1) = PFloat (Fin 2)
     \<and> app_type (out ! 0) = py_str sample_lib (PStr ''Free'')"
proof -
  obtain cleaned out where c: "ingestion_execute_pipeline sample_lib npy_aquicksort [android_row] = Inr cleaned"
    and o: "create_unified_schema sample_lib cleaned [ios_row] = Inr out"
    using android_row_end_to_end by (auto simp: ebind_Inr_iff)
  from o obtain g ui where ui: "unify_ios sample_lib ios_row = Inr ui" and out: "out = g @ [ui]"
    by (auto simp: create_unified_schema_Inr_iff list_all2_Cons1)
  have b: "safe_convert_to_float (PStr ''2097152'') = Fin 2097152"
    by (simp add: safe_convert_to_float_def parse_defs)
  have small: "\<forall>v. length v \<le> 1 \<longrightarrow> npy_aquicksort v = [0..<length v]"
    by (simp add: npy_aquicksort_small)
  note t = end_to_end_free_games [of sample_lib ios_row ui _ _ npy_aquicksort android_row cleaned
      "[ios_row]" out ios_row out]
  from t ui b have sz: "size_mb ui = PFloat (Fin 2)"
    by (simp add: ios_row_def)
  from t c o small have ty: "app_type (out ! 0) = py_str sample_lib (PStr ''Free'')"
    by (auto simp: android_row_def)
  from t c o small have "map platform out = [''Android'', ''iOS'']
        \<and> map unified_category out = [PStr ''Games'', PStr ''Games'']
        \<and> map app_type out = [''Free'', ''Free'']
        \<and> review_count (out ! 0) = PFloat (Fin 2300000)"
    by (simp add: android_row_def ios_row_def)
  moreover from this out have "out ! 1 = ui"
    by (cases g) auto
  ultimately show ?thesis
    using c o sz ty by (intro exI [of _ cleaned] exI [of _ out]) simp
qed

end
